theory Spec2Isabelle
  imports Complex_Main "HOL-Library.Sublist" "HOL-Library.Monad_Syntax"
begin

section \<open>The scroll-until-stable loops\<close>

text \<open>
  Both scrapers load posts with a bounded \<^verbatim>\<open>for\<close> loop that scrolls, waits, counts the
  \<^verbatim>\<open>div[role="article"]\<close> nodes and decides whether to go on. The loop variables
  \<^verbatim>\<open>lastCount\<close> and \<^verbatim>\<open>stalls\<close> are the state; the page is the environment, given as the
  count \<open>counts i\<close> that \<^verbatim>\<open>$$eval(..., nodes => nodes.length)\<close> returns in iteration \<open>i\<close>
  (counted from 0). The configured numbers are JavaScript numbers read with
  \<^verbatim>\<open>parseInt\<close>; they are integers here (a \<^verbatim>\<open>NaN\<close> setting is not modelled).
\<close>

record ConvergenceState =
  lastCount :: nat
  stalls :: nat

definition initialState :: ConvergenceState where
  "initialState = \<lparr>lastCount = 0, stalls = 0\<rparr>"

text \<open>How one pass through the loop body ends: by one of the two \<^verbatim>\<open>break\<close>s, or by
  falling through to \<^verbatim>\<open>i++\<close>.\<close>

datatype signal = BreakTarget | BreakStall | Continue

text \<open>
  The body of the loop of \<^verbatim>\<open>loadArticles\<close> (scraper.js), after the scrolling:
  \<^verbatim>\<open>
    if (count >= target) break;
    if (count <= lastCount) { stalls += 1; } else { stalls = 0; lastCount = count; }
    if (stalls >= SCROLL_STALL_LIMIT) break;
  \<close>
\<close>

definition loadStep :: "int \<Rightarrow> int \<Rightarrow> ConvergenceState \<Rightarrow> nat \<Rightarrow> signal \<times> ConvergenceState" where
  "loadStep target stallLimit st count =
     (if target \<le> int count then (BreakTarget, st)
      else
        let st' = (if count \<le> lastCount st then st\<lparr>stalls := stalls st + 1\<rparr>
                   else st\<lparr>stalls := 0, lastCount := count\<rparr>)
        in if stallLimit \<le> int (stalls st') then (BreakStall, st') else (Continue, st'))"

text \<open>
  The body of the loop of \<^verbatim>\<open>scrapeFacebookPageOptimized\<close>:
  \<^verbatim>\<open>
    if (count >= POSTS_TARGET) break;
    if (count <= lastCount) stalls++; else stalls = 0;
    lastCount = count;
    if (stalls >= 5) break;
  \<close>
\<close>

definition optimizedStep :: "int \<Rightarrow> ConvergenceState \<Rightarrow> nat \<Rightarrow> signal \<times> ConvergenceState" where
  "optimizedStep target st count =
     (if target \<le> int count then (BreakTarget, st)
      else
        let n = (if count \<le> lastCount st then stalls st + 1 else 0);
            st' = \<lparr>lastCount = count, stalls = n\<rparr>
        in if 5 \<le> n then (BreakStall, st') else (Continue, st'))"

text \<open>Why a run of the loop ended.\<close>

datatype outcome = TargetReached | Stalled | LoopsExhausted

text \<open>One executed iteration: the state it started from, the count it observed, how it
  ended and the state it left.\<close>

record iteration =
  before :: ConvergenceState
  observed :: nat
  ended :: signal
  after :: ConvergenceState

record loopRun =
  outcome :: outcome
  history :: "iteration list"

text \<open>
  \<^verbatim>\<open>for (let i = 0; i < maxLoops; i++) { body }\<close> with the body given as a step function.
  The run records every iteration it executes, in order.
\<close>

function forLoop ::
  "(ConvergenceState \<Rightarrow> nat \<Rightarrow> signal \<times> ConvergenceState) \<Rightarrow> int \<Rightarrow> (nat \<Rightarrow> nat) \<Rightarrow>
   nat \<Rightarrow> ConvergenceState \<Rightarrow> loopRun" where
  "forLoop step maxLoops counts i st =
     (if int i < maxLoops then
        (case step st (counts i) of
           (sg, st') \<Rightarrow>
             let it = \<lparr>before = st, observed = counts i, ended = sg, after = st'\<rparr>
             in (case sg of
                   BreakTarget \<Rightarrow> \<lparr>outcome = TargetReached, history = [it]\<rparr>
                 | BreakStall \<Rightarrow> \<lparr>outcome = Stalled, history = [it]\<rparr>
                 | Continue \<Rightarrow>
                     (let r = forLoop step maxLoops counts (Suc i) st'
                      in r\<lparr>history := it # history r\<rparr>)))
      else \<lparr>outcome = LoopsExhausted, history = []\<rparr>)"
  by pat_completeness auto
termination
  by (relation "measure (\<lambda>(step, maxLoops, counts, i, st). nat (maxLoops - int i))") auto

definition loadArticles :: "int \<Rightarrow> int \<Rightarrow> int \<Rightarrow> (nat \<Rightarrow> nat) \<Rightarrow> loopRun" where
  "loadArticles target stallLimit maxLoops counts =
     forLoop (loadStep target stallLimit) maxLoops counts 0 initialState"

definition optimizedLoad :: "int \<Rightarrow> (nat \<Rightarrow> nat) \<Rightarrow> loopRun" where
  "optimizedLoad target counts = forLoop (optimizedStep target) 100 counts 0 initialState"

definition iterations :: "loopRun \<Rightarrow> nat" where
  "iterations r = length (history r)"

text \<open>The stall counter when the loop is left.\<close>

definition finalStalls :: "loopRun \<Rightarrow> nat" where
  "finalStalls r = (case history r of [] \<Rightarrow> 0 | _ \<Rightarrow> stalls (after (last (history r))))"

text \<open>What the loop guarantees about the \<open>k\<close>-th entry of the history of a run that
  started at loop index \<open>i\<close>.\<close>

definition iterOK :: "(ConvergenceState \<Rightarrow> nat \<Rightarrow> signal \<times> ConvergenceState) \<Rightarrow> int \<Rightarrow> (nat \<Rightarrow> nat) \<Rightarrow> nat \<Rightarrow> loopRun \<Rightarrow> nat \<Rightarrow> bool" where
  "iterOK step maxLoops counts i r k \<longleftrightarrow>
     observed (history r ! k) = counts (i + k)
   \<and> step (before (history r ! k)) (counts (i + k)) = (ended (history r ! k), after (history r ! k))
   \<and> int (i + k) < maxLoops
   \<and> (Suc k < length (history r) \<longrightarrow> ended (history r ! k) = Continue)
   \<and> (ended (history r ! k) = BreakTarget \<longrightarrow> outcome r = TargetReached \<and> length (history r) = Suc k)
   \<and> (ended (history r ! k) = BreakStall \<longrightarrow> outcome r = Stalled \<and> length (history r) = Suc k)"

section \<open>JavaScript strings and regular expressions\<close>

text \<open>
  A JavaScript string is a sequence of UTF-16 code units; the patterns of the scrapers
  carry no \<^verbatim>\<open>u\<close> flag where they are modelled here, so they match code unit by code
  unit. Arabic text is written by its code points (\<^verbatim>\<open>0x643\<close> is KAF, and so on).
\<close>

type_synonym jsstring = "nat list"

text \<open>An ASCII literal of the source as a string of code units.\<close>

definition js :: "string \<Rightarrow> jsstring" where
  "js s = map of_char s"

definition isDigit :: "nat \<Rightarrow> bool" where
  "isDigit c \<longleftrightarrow> 48 \<le> c \<and> c \<le> 57"

text \<open>The class \<^verbatim>\<open>\w\<close> that decides \<^verbatim>\<open>\b\<close>: \<^verbatim>\<open>[A-Za-z0-9_]\<close>. Arabic letters are
  not word characters.\<close>

definition isWordChar :: "nat \<Rightarrow> bool" where
  "isWordChar c \<longleftrightarrow> (48 \<le> c \<and> c \<le> 57) \<or> (65 \<le> c \<and> c \<le> 90) \<or> c = 95 \<or> (97 \<le> c \<and> c \<le> 122)"

text \<open>White space and line terminators of ECMAScript: what \<^verbatim>\<open>\s\<close> matches, what
  \<^verbatim>\<open>trim\<close> strips and what \<^verbatim>\<open>parseInt\<close> skips.\<close>

definition isSpace :: "nat \<Rightarrow> bool" where
  "isSpace c \<longleftrightarrow> (9 \<le> c \<and> c \<le> 13) \<or> c = 32 \<or> c = 160 \<or> c = 0x1680
     \<or> (0x2000 \<le> c \<and> c \<le> 0x200A) \<or> c = 0x2028 \<or> c = 0x2029 \<or> c = 0x202F
     \<or> c = 0x205F \<or> c = 0x3000 \<or> c = 0xFEFF"

text \<open>
  The \<^verbatim>\<open>i\<close> flag compares code units after \<^verbatim>\<open>Canonicalize\<close>, which is
  \<^verbatim>\<open>toUpperCase\<close> except that a unit outside ASCII is never mapped into ASCII.
  Every character of the patterns below is an ASCII character or an Arabic letter, and
  no other unit canonicalizes to one of those, so upper-casing ASCII letters is exact
  for them.
\<close>

definition canonicalize :: "nat \<Rightarrow> nat" where
  "canonicalize c = (if 97 \<le> c \<and> c \<le> 122 then c - 32 else c)"

text \<open>
  \<^verbatim>\<open>String.prototype.toLowerCase\<close>, one unit at a time: ASCII capitals, and the two
  units outside ASCII whose lower case falls into ASCII (KELVIN SIGN and the dotted
  capital I). Other cased letters outside ASCII are left as they are: they occur in no
  pattern, and the functions that lower-case return numbers.
\<close>

definition lowerUnit :: "nat \<Rightarrow> jsstring" where
  "lowerUnit c = (if 65 \<le> c \<and> c \<le> 90 then [c + 32]
                  else if c = 0x212A then [107]
                  else if c = 0x130 then [105, 0x307]
                  else [c])"

definition toLowerCase :: "jsstring \<Rightarrow> jsstring" where
  "toLowerCase s = concat (map lowerUnit s)"

definition trim :: "jsstring \<Rightarrow> jsstring" where
  "trim s = rev (dropWhile isSpace (rev (dropWhile isSpace s)))"

text \<open>
  The regular expressions the scrapers use, as terms: \<open>Chr\<close> one character, \<open>Cls\<close> a
  class given by its ranges, \<open>Seq\<close> and \<open>Alt\<close> sequence and alternative, \<open>Star\<close> the
  greedy \<^verbatim>\<open>*\<close>, \<open>Grp n\<close> the \<open>n\<close>-th capturing group and \<open>WordB\<close> the assertion
  \<^verbatim>\<open>\b\<close>. The greedy \<^verbatim>\<open>+\<close> and \<^verbatim>\<open>?\<close> are derived.
\<close>

datatype rx = Eps | Chr nat | Cls "(nat \<times> nat) list" | Seq rx rx | Alt rx rx
  | Star rx | Grp nat rx | WordB

text \<open>A position of the matcher: the unit just before it (for \<^verbatim>\<open>\b\<close>), the input still
  to read, and the groups captured so far (the latest first).\<close>

datatype mstate = St (prv: "nat option") (rest: jsstring) (caps: "(nat \<times> jsstring) list")

definition unitEq :: "bool \<Rightarrow> nat \<Rightarrow> nat \<Rightarrow> bool" where
  "unitEq ic a x \<longleftrightarrow> (if ic then canonicalize a = canonicalize x else a = x)"

definition inRanges :: "(nat \<times> nat) list \<Rightarrow> nat \<Rightarrow> bool" where
  "inRanges rs x \<longleftrightarrow> list_ex (\<lambda>(lo, hi). lo \<le> x \<and> x \<le> hi) rs"

text \<open>Under the \<^verbatim>\<open>i\<close> flag a class matches a unit when it holds a unit with the same
  canonical form: the unit itself or its other ASCII case.\<close>

definition clsMatch :: "bool \<Rightarrow> (nat \<times> nat) list \<Rightarrow> nat \<Rightarrow> bool" where
  "clsMatch ic rs x \<longleftrightarrow> inRanges rs x
     \<or> (ic \<and> (inRanges rs (canonicalize x)
              \<or> (65 \<le> x \<and> x \<le> 90 \<and> inRanges rs (x + 32))))"

definition atBoundary :: "nat option \<Rightarrow> jsstring \<Rightarrow> bool" where
  "atBoundary p s \<longleftrightarrow>
     (case p of None \<Rightarrow> False | Some a \<Rightarrow> isWordChar a)
     \<noteq> (case s of [] \<Rightarrow> False | x # _ \<Rightarrow> isWordChar x)"

text \<open>
  The backtracking matcher of ECMAScript as a list of successes: \<open>ms ic r c\<close> lists the
  positions at which a match of \<open>r\<close> that starts at \<open>c\<close> can end, in the order in which
  backtracking tries them, so the head of the list is the match JavaScript reports.
  An alternative tries its left side first; a star first tries one more round and gives
  up a round that consumed nothing, as the specification's empty check does. No pattern
  here has a group under a star, so the reset of captures in a repeated group is not
  modelled. \<open>ic\<close> is the \<^verbatim>\<open>i\<close> flag.
\<close>

function ms :: "bool \<Rightarrow> rx \<Rightarrow> mstate \<Rightarrow> mstate list" where
  "ms ic Eps c = [c]"
| "ms ic (Chr a) c =
     (case rest c of [] \<Rightarrow> []
      | x # xs \<Rightarrow> if unitEq ic a x then [St (Some x) xs (caps c)] else [])"
| "ms ic (Cls rs) c =
     (case rest c of [] \<Rightarrow> []
      | x # xs \<Rightarrow> if clsMatch ic rs x then [St (Some x) xs (caps c)] else [])"
| "ms ic (Seq a b) c = concat (map (ms ic b) (ms ic a c))"
| "ms ic (Alt a b) c = ms ic a c @ ms ic b c"
| "ms ic (Star a) c =
     concat (map (\<lambda>c'. if length (rest c') < length (rest c) then ms ic (Star a) c' else [])
                 (ms ic a c)) @ [c]"
| "ms ic (Grp n a) c =
     map (\<lambda>c'. St (prv c') (rest c')
                  ((n, take (length (rest c) - length (rest c')) (rest c)) # caps c'))
         (ms ic a c)"
| "ms ic WordB c = (if atBoundary (prv c) (rest c) then [c] else [])"
  by pat_completeness auto
termination
  by (relation "inv_image (measure size <*lex*> measure length) (\<lambda>(ic, r, c). (r, rest c))") auto

text \<open>A literal, \<^verbatim>\<open>r+\<close>, \<^verbatim>\<open>r?\<close>, \<^verbatim>\<open>a|b|c\<close> and a sequence of several parts.\<close>

fun Lit :: "jsstring \<Rightarrow> rx" where
  "Lit [] = Eps"
| "Lit [a] = Chr a"
| "Lit (a # as) = Seq (Chr a) (Lit as)"

definition Plus :: "rx \<Rightarrow> rx" where
  "Plus r = Seq r (Star r)"

definition Opt :: "rx \<Rightarrow> rx" where
  "Opt r = Alt r Eps"

fun Alts :: "rx list \<Rightarrow> rx" where
  "Alts [] = Eps"
| "Alts [r] = r"
| "Alts (r # rs) = Alt r (Alts rs)"

fun Seqs :: "rx list \<Rightarrow> rx" where
  "Seqs [] = Eps"
| "Seqs [r] = r"
| "Seqs (r # rs) = Seq r (Seqs rs)"

text \<open>\<^verbatim>\<open>\d\<close> (also written \<^verbatim>\<open>[0-9]\<close>) and \<^verbatim>\<open>\s\<close>.\<close>

definition digitCls :: rx where
  "digitCls = Cls [(48, 57)]"

definition spaceCls :: rx where
  "spaceCls = Cls [(9, 13), (32, 32), (160, 160), (0x1680, 0x1680), (0x2000, 0x200A),
                   (0x2028, 0x2029), (0x202F, 0x202F), (0x205F, 0x205F), (0x3000, 0x3000),
                   (0xFEFF, 0xFEFF)]"

text \<open>
  The leftmost match of an unanchored pattern: try every start from the left; \<open>i\<close>
  counts the units skipped. \<open>rx_exec\<close> is \<^verbatim>\<open>RegExp.prototype.exec\<close> and
  \<^verbatim>\<open>String.prototype.match\<close> without the \<^verbatim>\<open>g\<close> flag, \<open>rx_test\<close> is \<^verbatim>\<open>test\<close>, and
  \<open>rx_group ic r n s\<close> is \<^verbatim>\<open>(s.match(r) || [])[n]\<close>.
\<close>

fun rx_search :: "bool \<Rightarrow> rx \<Rightarrow> nat option \<Rightarrow> jsstring \<Rightarrow> nat \<Rightarrow> (nat \<times> mstate) option" where
  "rx_search ic r p [] i = (case ms ic r (St p [] []) of c # _ \<Rightarrow> Some (i, c) | [] \<Rightarrow> None)"
| "rx_search ic r p (x # xs) i =
     (case ms ic r (St p (x # xs) []) of c # _ \<Rightarrow> Some (i, c)
      | [] \<Rightarrow> rx_search ic r (Some x) xs (Suc i))"

definition rx_exec :: "bool \<Rightarrow> rx \<Rightarrow> jsstring \<Rightarrow> (nat \<times> mstate) option" where
  "rx_exec ic r s = rx_search ic r None s 0"

definition rx_test :: "bool \<Rightarrow> rx \<Rightarrow> jsstring \<Rightarrow> bool" where
  "rx_test ic r s \<longleftrightarrow> rx_exec ic r s \<noteq> None"

definition rx_group :: "bool \<Rightarrow> rx \<Rightarrow> nat \<Rightarrow> jsstring \<Rightarrow> jsstring option" where
  "rx_group ic r n s = (case rx_exec ic r s of None \<Rightarrow> None | Some (i, c) \<Rightarrow> map_of (caps c) n)"

text \<open>
  \<^verbatim>\<open>s.replace(/r/g, rep)\<close> with a replacement that holds no \<^verbatim>\<open>$\<close>: every match, from
  the left, is replaced; after an empty match the next unit is copied and the search
  goes on behind it.
\<close>

function rx_replace :: "bool \<Rightarrow> rx \<Rightarrow> jsstring \<Rightarrow> nat option \<Rightarrow> jsstring \<Rightarrow> jsstring" where
  "rx_replace ic r rep p s =
     (case ms ic r (St p s []) of
        [] \<Rightarrow> (case s of [] \<Rightarrow> [] | x # xs \<Rightarrow> x # rx_replace ic r rep (Some x) xs)
      | c # _ \<Rightarrow>
          if length (rest c) < length s then rep @ rx_replace ic r rep (prv c) (rest c)
          else rep @ (case s of [] \<Rightarrow> [] | x # xs \<Rightarrow> x # rx_replace ic r rep (Some x) xs))"
  by pat_completeness auto
termination
  by (relation "measure (\<lambda>(ic, r, rep, p, s). length s)") auto

text \<open>\<^verbatim>\<open>s.match(/r/g)\<close>: the texts of all matches, from the left (\<^verbatim>\<open>null\<close> is the empty
  list).\<close>

function rx_match_all :: "bool \<Rightarrow> rx \<Rightarrow> nat option \<Rightarrow> jsstring \<Rightarrow> jsstring list" where
  "rx_match_all ic r p s =
     (case ms ic r (St p s []) of
        [] \<Rightarrow> (case s of [] \<Rightarrow> [] | x # xs \<Rightarrow> rx_match_all ic r (Some x) xs)
      | c # _ \<Rightarrow>
          if length (rest c) < length s
          then take (length s - length (rest c)) s # rx_match_all ic r (prv c) (rest c)
          else [] # (case s of [] \<Rightarrow> [] | x # xs \<Rightarrow> rx_match_all ic r (Some x) xs))"
  by pat_completeness auto
termination
  by (relation "measure (\<lambda>(ic, r, p, s). length s)") auto

text \<open>
  \<^verbatim>\<open>s.split(/r/)\<close>, without the captured groups that JavaScript splices in between the
  pieces (the scrapers read piece 0 of a pattern with a group, and piece 1 of a pattern
  without). \<open>seg\<close> is the piece being collected; a match at its very start that consumes
  nothing does not split, and no match is tried at the end of the input.
\<close>

function rx_split_from :: "bool \<Rightarrow> rx \<Rightarrow> jsstring \<Rightarrow> nat option \<Rightarrow> jsstring \<Rightarrow> jsstring list" where
  "rx_split_from ic r seg p s =
     (case s of
        [] \<Rightarrow> [seg]
      | x # xs \<Rightarrow>
          (case ms ic r (St p s []) of
             [] \<Rightarrow> rx_split_from ic r (seg @ [x]) (Some x) xs
           | c # _ \<Rightarrow>
               if length (rest c) < length s then seg # rx_split_from ic r [] (prv c) (rest c)
               else if seg = [] then rx_split_from ic r [x] (Some x) xs
               else seg # rx_split_from ic r [x] (Some x) xs))"
  by pat_completeness auto
termination
  by (relation "measure (\<lambda>(ic, r, seg, p, s). length s)") auto

definition rx_split :: "bool \<Rightarrow> rx \<Rightarrow> jsstring \<Rightarrow> jsstring list" where
  "rx_split ic r s =
     (if s = [] then (if ms ic r (St None [] []) = [] then [[]] else [])
      else rx_split_from ic r [] None s)"

section \<open>Numbers and the numeral normalizer\<close>

text \<open>
  A JavaScript number is an IEEE 754 double: \<^verbatim>\<open>NaN\<close>, one of the two infinities, or a
  finite value. The finite values are kept as the numbers they denote (a real for a
  double in general, an integer for the time value of a date); the two zeros are one
  value, which no operation used by this code tells apart.
\<close>

datatype 'a number = NaN | Num 'a | Infinity | NegInfinity

definition digitsValue :: "jsstring \<Rightarrow> nat" where
  "digitsValue ds = foldl (\<lambda>a d. 10 * a + (d - 48)) 0 ds"

subsection \<open>Rounding to a double\<close>

text \<open>The number of binary digits of a natural number.\<close>

fun bitLength :: "nat \<Rightarrow> nat" where
  "bitLength n = (if n = 0 then 0 else Suc (bitLength (n div 2)))"

declare bitLength.simps [simp del]

text \<open>\<open>2\<close> to an integer power.\<close>

definition pow2 :: "int \<Rightarrow> real" where
  "pow2 e = (if 0 \<le> e then 2 ^ nat e else 1 / 2 ^ nat (- e))"

text \<open>For \<open>x > 0\<close> the integer \<open>k\<close> with \<open>2\<^sup>k \<le> x < 2\<^sup>k\<^sup>+\<^sup>1\<close>: from the digits of \<open>\<lfloor>x\<rfloor>\<close>
  when \<open>1 \<le> x\<close>, from those of \<open>\<lceil>1 / x\<rceil> - 1\<close> below.\<close>

definition ilog2 :: "real \<Rightarrow> int" where
  "ilog2 x = (if 1 \<le> x then int (bitLength (nat \<lfloor>x\<rfloor>)) - 1
              else - int (bitLength (nat (\<lceil>1 / x\<rceil> - 1))))"

text \<open>The nearest integer, a tie going to the even one.\<close>

definition roundHalfEven :: "real \<Rightarrow> int" where
  "roundHalfEven y =
     (let q = \<lfloor>y\<rfloor>; r = y - of_int q
      in if r < 1 / 2 then q else if 1 / 2 < r then q + 1 else if even q then q else q + 1)"

text \<open>
  The double nearest a real (round to nearest, ties to even): the significand has 53
  binary digits, so near \<open>x\<close> the doubles are the multiples of \<open>2\<^sup>e\<close> with
  \<open>e = max (ilog2 \<bar>x\<bar>) (-1022) - 52\<close> (the smallest exponent is that of the subnormal
  numbers); a result that reaches \<open>2\<^sup>1\<^sup>0\<^sup>2\<^sup>4\<close> is an infinity.
\<close>

definition toDouble :: "real \<Rightarrow> real number" where
  "toDouble x =
     (if x = 0 then Num 0
      else
        let e = max (ilog2 \<bar>x\<bar>) (- 1022) - 52;
            y = of_int (roundHalfEven (x / pow2 e)) * pow2 e
        in if 2 ^ 1024 \<le> y then Infinity
           else if y \<le> - (2 ^ 1024) then NegInfinity
           else Num y)"

subsection \<open>The built-in functions on numbers\<close>

text \<open>\<^verbatim>\<open>parseInt(s, 10)\<close>: leading white space, an optional sign, then the longest run of
  decimal digits; \<^verbatim>\<open>NaN\<close> when that run is empty, otherwise the double nearest the
  integer written.\<close>

definition parseInt :: "jsstring \<Rightarrow> real number" where
  "parseInt s =
     (let t = dropWhile isSpace s;
          neg = (case t of [] \<Rightarrow> False | x # _ \<Rightarrow> x = 45);
          u = (case t of [] \<Rightarrow> [] | x # r \<Rightarrow> if x = 45 \<or> x = 43 then r else t);
          ds = takeWhile isDigit u
      in if ds = [] then NaN
         else toDouble (if neg then - of_nat (digitsValue ds) else of_nat (digitsValue ds)))"

text \<open>\<^verbatim>\<open>parseFloat\<close> on a token of the shape \<^verbatim>\<open>digits\<close> or \<^verbatim>\<open>digits.digits\<close>, the only
  shape the code passes to it (signs and exponents never reach it): the double nearest
  the decimal written.\<close>

definition parseFloat :: "jsstring \<Rightarrow> real number" where
  "parseFloat tok =
     (let ip = takeWhile isDigit tok;
          fp = (case drop (length ip) tok of [] \<Rightarrow> []
                | x # f \<Rightarrow> if x = 46 then takeWhile isDigit f else [])
      in if ip = [] \<and> fp = [] then NaN
         else toDouble (of_nat (digitsValue ip) + of_nat (digitsValue fp) / 10 ^ length fp))"

text \<open>\<^verbatim>\<open>a * k\<close> for a factor \<open>k\<close> that is a positive finite double (the code multiplies
  by \<open>1\<close>, \<open>1000\<close>, \<open>1000000\<close> or \<open>1000000000\<close>): the double nearest the product.\<close>

definition timesNum :: "real number \<Rightarrow> real \<Rightarrow> real number" where
  "timesNum a k = (case a of Num x \<Rightarrow> toDouble (x * k) | NaN \<Rightarrow> NaN
                   | Infinity \<Rightarrow> Infinity | NegInfinity \<Rightarrow> NegInfinity)"

text \<open>\<^verbatim>\<open>a + b\<close>: the double nearest the sum; opposite infinities give \<^verbatim>\<open>NaN\<close>.\<close>

definition addNum :: "real number \<Rightarrow> real number \<Rightarrow> real number" where
  "addNum a b =
     (case a of
        NaN \<Rightarrow> NaN
      | Num x \<Rightarrow> (case b of Num y \<Rightarrow> toDouble (x + y) | other \<Rightarrow> other)
      | Infinity \<Rightarrow> (case b of NaN \<Rightarrow> NaN | NegInfinity \<Rightarrow> NaN | _ \<Rightarrow> Infinity)
      | NegInfinity \<Rightarrow> (case b of NaN \<Rightarrow> NaN | Infinity \<Rightarrow> NaN | _ \<Rightarrow> NegInfinity))"

text \<open>\<^verbatim>\<open>Math.round\<close>: the nearest integer, a half going upwards. The result is a double
  for every finite double (one of at least \<open>2\<^sup>5\<^sup>2\<close> is an integer already).\<close>

definition mathRound :: "real number \<Rightarrow> real number" where
  "mathRound a = (case a of Num x \<Rightarrow> Num (of_int \<lfloor>x + 1 / 2\<rfloor>) | other \<Rightarrow> other)"

text \<open>\<^verbatim>\<open>Number.isFinite(v) ? v : null\<close>.\<close>

definition finiteOrNull :: "'a number \<Rightarrow> 'a option" where
  "finiteOrNull v = (case v of Num x \<Rightarrow> Some x | _ \<Rightarrow> None)"

text \<open>\<^verbatim>\<open>normalizeArabicDigits\<close> (utils.js), \<^verbatim>\<open>normalizeDigits\<close> (scraper.js) and
  \<^verbatim>\<open>arabicToLatin\<close> (scraper-optimized.js): the Arabic-Indic digits U+0660 to U+0669
  become \<^verbatim>\<open>0\<close> to \<^verbatim>\<open>9\<close>.\<close>

definition normalizeArabicDigits :: "jsstring \<Rightarrow> jsstring" where
  "normalizeArabicDigits s = map (\<lambda>c. if 0x660 \<le> c \<and> c \<le> 0x669 then c - 0x660 + 48 else c) s"

text \<open>The numeric token \<^verbatim>\<open>([0-9]+(?:\.[0-9]+)?)\<close>.\<close>

definition numericToken :: rx where
  "numericToken = Grp 1 (Seq (Plus digitCls) (Opt (Seq (Chr 46) (Plus digitCls))))"

text \<open>
  \<^verbatim>\<open>parseCount\<close> (utils.js). The argument is \<open>None\<close> for \<^verbatim>\<open>null\<close>/\<^verbatim>\<open>undefined\<close>.
  \<^verbatim>\<open>
  export function parseCount(text) {
    if (!text) return null;
    let s = normalizeArabicDigits(String(text)).trim().toLowerCase();
    s = s.replace(/\u066b/g, '.').replace(/\u066c/g, '');
    let factor = 1;
    if (/\b(ALF|ALF')\b/.test(s)) factor = 1_000;               // two spellings of "thousand"
    else if (/\b(MLYWN|MLAYYN)\b/.test(s)) factor = 1_000_000;  // "million", "millions"
    else if (/\b(MLYAR|MLYARAT)\b/.test(s)) factor = 1_000_000_000;
    else if (/\bk\b/.test(s)) factor = 1_000;
    else if (/\bm\b/.test(s)) factor = 1_000_000;
    else if (/\bb\b/.test(s)) factor = 1_000_000_000;
    const m = s.match(/([0-9]+(?:\.[0-9]+)?)/);
    if (!m) {
      const digitsOnly = s.replace(/[^0-9]/g, '');
      if (!digitsOnly) return null;
      const n = parseInt(digitsOnly, 10);
      return Number.isFinite(n) ? n : null;
    }
    const num = parseFloat(m[1]);
    const val = Math.round(num * factor);
    return Number.isFinite(val) ? val : null;
  }
  \<close>
  (the Arabic words are transliterated in this comment; the definition has their code
  points).
\<close>

definition parseCount :: "jsstring option \<Rightarrow> real option" where
  "parseCount text =
     (case text of None \<Rightarrow> None
      | Some raw \<Rightarrow>
        if raw = [] then None
        else
          let s0 = toLowerCase (trim (normalizeArabicDigits raw));
              s = filter (\<lambda>c. c \<noteq> 0x66C) (map (\<lambda>c. if c = 0x66B then 46 else c) s0);
              word = (\<lambda>ws. rx_test False (Seqs [WordB, Grp 1 (Alts (map Lit ws)), WordB]) s);
              letter = (\<lambda>c. rx_test False (Seqs [WordB, Chr c, WordB]) s);
              factor =
                (if word [[0x627, 0x644, 0x641], [0x623, 0x644, 0x641]] then 1000
                 else if word [[0x645, 0x644, 0x64A, 0x648, 0x646],
                               [0x645, 0x644, 0x627, 0x64A, 0x64A, 0x646]] then 1000000
                 else if word [[0x645, 0x644, 0x64A, 0x627, 0x631],
                               [0x645, 0x644, 0x64A, 0x627, 0x631, 0x627, 0x62A]] then 1000000000
                 else if letter 107 then 1000
                 else if letter 109 then 1000000
                 else if letter 98 then 1000000000
                 else (1 :: real))
          in (case rx_group False numericToken 1 s of
                None \<Rightarrow>
                  (let digitsOnly = filter isDigit s
                   in if digitsOnly = [] then None
                      else finiteOrNull (parseInt digitsOnly))
              | Some tok \<Rightarrow> finiteOrNull (mathRound (timesNum (parseFloat tok) factor))))"

section \<open>Articles and their cleaned text\<close>

text \<open>
  What the extraction reads of one \<^verbatim>\<open>div[role="article"]\<close> node: its
  \<^verbatim>\<open>innerText\<close>, the \<^verbatim>\<open>aria-label\<close> values of its descendants that carry one and the
  \<^verbatim>\<open>textContent\<close> of its \<^verbatim>\<open>span\<close> descendants, both in document order, and the date
  string that \<^verbatim>\<open>extractDate\<close> finds in it (its DOM queries and patterns are not
  modelled; no property below depends on the date).
\<close>

record article =
  innerText :: jsstring
  ariaLabels :: "jsstring list"
  spanTexts :: "jsstring list"
  dateFound :: "jsstring option"

text \<open>\<^verbatim>\<open>/ARD ALMZYD|See more/gi\<close>: the "see more" label in Arabic and in English.\<close>

definition seeMore :: rx where
  "seeMore = Alt (Lit [0x639, 0x631, 0x636, 32, 0x627, 0x644, 0x645, 0x632, 0x64A, 0x62F])
                 (Lit (js ''See more''))"

text \<open>\<^verbatim>\<open>splitOn = /(like|comment|share in Arabic|Like|Comment|Share)/i\<close>.\<close>

definition splitOn :: rx where
  "splitOn = Grp 1 (Alts [Lit [0x623, 0x639, 0x62C, 0x628, 0x646, 0x64A],
                          Lit [0x62A, 0x639, 0x644, 0x64A, 0x642],
                          Lit [0x645, 0x634, 0x627, 0x631, 0x643, 0x629],
                          Lit (js ''Like''), Lit (js ''Comment''), Lit (js ''Share'')])"

text \<open>\<^verbatim>\<open>parts[0]\<close>, with \<^verbatim>\<open>undefined\<close> read as the empty string (both are falsy).\<close>

definition firstPart :: "jsstring list \<Rightarrow> jsstring" where
  "firstPart parts = (case parts of [] \<Rightarrow> [] | p # _ \<Rightarrow> p)"

text \<open>\<^verbatim>\<open>.replace(/\s+/g, ' ')\<close>.\<close>

definition collapseSpaces :: "jsstring \<Rightarrow> jsstring" where
  "collapseSpaces s = rx_replace False (Plus spaceCls) [32] None s"

text \<open>
  \<^verbatim>\<open>cleanText\<close> of scraper.js:
  \<^verbatim>\<open>
  const cleanText = (t) => {
    if (!t) return '';
    t = t.replace(/...|See more/gi, ' ');
    const splitOn = /(...|Like|Comment|Share)/i;
    const parts = t.split(splitOn);
    return (parts[0] || t).replace(/\s+/g, ' ').trim();
  };
  \<close>
  When the text starts with an action-bar label, \<^verbatim>\<open>parts[0]\<close> is empty and the whole
  text is kept.
\<close>

definition cleanText :: "jsstring \<Rightarrow> jsstring" where
  "cleanText t0 =
     (if t0 = [] then []
      else
        let t = rx_replace True seeMore [32] None t0;
            p0 = firstPart (rx_split True splitOn t)
        in trim (collapseSpaces (if p0 = [] then t else p0)))"

text \<open>
  \<^verbatim>\<open>extractPostText\<close> of scraper-optimized.js: the same, but the "see more" label is
  deleted rather than replaced by a space.
  \<^verbatim>\<open>
  const extractPostText = (article) => {
    let text = article.innerText || '';
    text = text.replace(/...|See more/gi, '');
    const splitOn = /(...|Like|Comment|Share)/i;
    const parts = text.split(splitOn);
    return (parts[0] || text).replace(/\s+/g, ' ').trim();
  };
  \<close>
\<close>

definition extractPostText :: "article \<Rightarrow> jsstring" where
  "extractPostText a =
     (let t = rx_replace True seeMore [] None (innerText a);
          p0 = firstPart (rx_split True splitOn t)
      in trim (collapseSpaces (if p0 = [] then t else p0)))"

text \<open>
  The specification's wording of the cleaning, to compare the two functions with: strip
  the "see more" labels (\<open>rep\<close> is what is put in their place: a space in scraper.js,
  nothing in scraper-optimized.js), split at the first action-bar label and keep only
  the prefix, collapse white space, trim. There is no fallback to the whole text.
\<close>

definition prefixText :: "jsstring \<Rightarrow> jsstring \<Rightarrow> jsstring" where
  "prefixText rep t0 =
     trim (collapseSpaces (firstPart (rx_split True splitOn (rx_replace True seeMore rep None t0))))"

section \<open>Engagement counters\<close>

fun firstSome :: "('a \<Rightarrow> 'b option) \<Rightarrow> 'a list \<Rightarrow> 'b option" where
  "firstSome f [] = None"
| "firstSome f (x # xs) = (case f x of Some v \<Rightarrow> Some v | None \<Rightarrow> firstSome f xs)"

subsection \<open>\<^verbatim>\<open>extractReactions\<close> of scraper.js\<close>

text \<open>
  \<^verbatim>\<open>
  const toNumber = (raw) => {
    if (!raw) return null;
    let s = normalizeDigits(raw).toLowerCase();
    const mK = s.match(/([0-9]+(?:\.[0-9]+)?)\s*k/);
    const mM = s.match(/([0-9]+(?:\.[0-9]+)?)\s*m/);
    if (mK) return Math.round(parseFloat(mK[1]) * 1000);
    if (mM) return Math.round(parseFloat(mM[1]) * 1000000);
    s = s.replace(/[,\s]/g, '');
    const n = parseInt(s, 10);
    return Number.isFinite(n) ? n : null;
  };
  \<close>
  \<open>None\<close> is \<^verbatim>\<open>null\<close>, for the argument and for the result; the two suffix
  branches return what \<^verbatim>\<open>Math.round\<close> gives, finite or not.
\<close>

definition toNumber :: "jsstring option \<Rightarrow> real number option" where
  "toNumber raw =
     (case raw of None \<Rightarrow> None
      | Some r \<Rightarrow>
        if r = [] then None
        else
          let s = toLowerCase (normalizeArabicDigits r);
              mK = rx_group False (Seqs [numericToken, Star spaceCls, Chr 107]) 1 s;
              mM = rx_group False (Seqs [numericToken, Star spaceCls, Chr 109]) 1 s
          in (case mK of
                Some tok \<Rightarrow> Some (mathRound (timesNum (parseFloat tok) 1000))
              | None \<Rightarrow>
                 (case mM of
                    Some tok \<Rightarrow> Some (mathRound (timesNum (parseFloat tok) 1000000))
                  | None \<Rightarrow>
                     map_option Num
                       (finiteOrNull (parseInt (filter (\<lambda>c. c \<noteq> 44 \<and> \<not> isSpace c) s))))))"

text \<open>\<^verbatim>\<open>[0-9\u0660-\u0669,.]\<close>.\<close>

definition countChars :: rx where
  "countChars = Cls [(48, 57), (0x660, 0x669), (44, 44), (46, 46)]"

text \<open>The "all reactions" label with its number:
  \<^verbatim>\<open>/KL\s*ALTFAELAT\s*[:\uFF1A]?\s*([0-9\u0660-\u0669,.]+)/\<close> (the class of colons holds the
  ASCII colon and the full-width colon U+FF1A).\<close>

definition totalInteractions :: rx where
  "totalInteractions =
     Seqs [Lit [0x643, 0x644], Star spaceCls,
           Lit [0x627, 0x644, 0x62A, 0x641, 0x627, 0x639, 0x644, 0x627, 0x62A], Star spaceCls,
           Opt (Cls [(58, 58), (0xFF1A, 0xFF1A)]), Star spaceCls,
           Grp 1 (Plus countChars)]"

text \<open>\<^verbatim>\<open>/A3JBNY|TFAE|react|like|likes/i\<close>, tested on an \<^verbatim>\<open>aria-label\<close>.\<close>

definition likeLabel :: rx where
  "likeLabel = Alts [Lit [0x623, 0x639, 0x62C, 0x628, 0x646, 0x64A], Lit [0x62A, 0x641, 0x627, 0x639],
                     Lit (js ''react''), Lit (js ''like''), Lit (js ''likes'')]"

text \<open>\<^verbatim>\<open>/A3JBNY|like|TFAE/i\<close>, tested on the article text followed by a span's text.\<close>

definition likeWord :: rx where
  "likeWord = Alts [Lit [0x623, 0x639, 0x62C, 0x628, 0x646, 0x64A], Lit (js ''like''),
                    Lit [0x62A, 0x641, 0x627, 0x639]]"

text \<open>\<^verbatim>\<open>/([0-9\u0660-\u0669,.]+\s*[kKmM]?)/\<close>.\<close>

definition countToken :: rx where
  "countToken = Grp 1 (Seqs [Plus countChars, Star spaceCls,
                             Opt (Cls [(107, 107), (75, 75), (109, 109), (77, 77)])])"

text \<open>\<^verbatim>\<open>/[0-9\u0660-\u0669]/\<close>.\<close>

definition anyDigit :: rx where
  "anyDigit = Cls [(48, 57), (0x660, 0x669)]"

text \<open>
  The body of the loop over the labels,
  \<^verbatim>\<open>
    if (!lbl) continue;
    if (/.../i.test(lbl)) {
      const n = (lbl.match(/([0-9\u0660-\u0669,.]+\s*[kKmM]?)/) || [null, null])[1];
      const val = toNumber(n);
      if (val != null) return val;
    }
  \<close>
  as the value it returns, if it returns.
\<close>

definition labelValue :: "jsstring \<Rightarrow> real number option" where
  "labelValue lbl =
     (if lbl = [] then None
      else if rx_test True likeLabel lbl then toNumber (rx_group False countToken 1 lbl)
      else None)"

text \<open>The same for a span: the filter
  \<^verbatim>\<open>/[0-9\u0660-\u0669]/.test(s) && /.../i.test(text + ' ' + s)\<close>, then the number.\<close>

definition spanValue :: "jsstring \<Rightarrow> jsstring \<Rightarrow> real number option" where
  "spanValue txt s =
     (if rx_test False anyDigit s \<and> rx_test True likeWord (txt @ [32] @ s)
      then toNumber (rx_group False countToken 1 s)
      else None)"

text \<open>
  \<^verbatim>\<open>extractReactions\<close>: the "all reactions" label decides alone when it is present;
  otherwise the first label with a number, otherwise the first span with a number,
  otherwise \<^verbatim>\<open>null\<close>.
\<close>

definition extractReactions :: "article \<Rightarrow> real number option" where
  "extractReactions a =
     (case rx_group False totalInteractions 1 (innerText a) of
        Some g \<Rightarrow> toNumber (Some g)
      | None \<Rightarrow>
          (case firstSome labelValue (ariaLabels a) of
             Some v \<Rightarrow> Some v
           | None \<Rightarrow> firstSome (spanValue (innerText a)) (spanTexts a)))"

subsection \<open>\<^verbatim>\<open>extractEngagement\<close> of scraper-optimized.js\<close>

text \<open>The metric asked for: \<^verbatim>\<open>'reactions'\<close>, \<^verbatim>\<open>'comments'\<close> or \<^verbatim>\<open>'shares'\<close>.\<close>

datatype metric = Reactions | Comments | Shares

text \<open>\<^verbatim>\<open>/KL ALTFAELAT:/i\<close> (one space, ASCII colon), tested on the raw text.\<close>

definition totalLabel :: rx where
  "totalLabel = Lit [0x643, 0x644, 32, 0x627, 0x644, 0x62A, 0x641, 0x627, 0x639, 0x644, 0x627, 0x62A, 58]"

text \<open>\<^verbatim>\<open>/KL\s*ALTFAELAT:\s*/i\<close>, on which the normalized text is split.\<close>

definition totalLabelSplit :: rx where
  "totalLabelSplit =
     Seqs [Lit [0x643, 0x644], Star spaceCls,
           Lit [0x627, 0x644, 0x62A, 0x641, 0x627, 0x639, 0x644, 0x627, 0x62A, 58], Star spaceCls]"

text \<open>\<^verbatim>\<open>/\b(\d+)\b/g\<close>.\<close>

definition wholeNumber :: rx where
  "wholeNumber = Seqs [WordB, Grp 1 (Plus digitCls), WordB]"

text \<open>
  Strategy 1, the numbers after the "all reactions" label; \<open>None\<close> when it falls through
  to strategy 2.
  \<^verbatim>\<open>
  if (/KL ALTFAELAT:/i.test(allText)) {
    const afterLabel = normalizedText.split(/KL\s*ALTFAELAT:\s*/i)[1];
    if (afterLabel) {
      const numbers = afterLabel.match(/\b(\d+)\b/g);
      if (numbers && numbers.length >= 4) {
        const reactions = parseInt(numbers[0], 10);
        const comments = parseInt(numbers[2], 10);
        const shares = parseInt(numbers[3], 10);
        if (metric === 'reactions') return reactions;
        if (metric === 'comments') return comments;
        if (metric === 'shares') return shares;
      } else if (numbers && numbers.length >= 2) {
        const reactions = parseInt(numbers[0], 10);
        const comments = parseInt(numbers[1], 10);
        if (metric === 'reactions') return reactions;
        if (metric === 'comments') return comments;
        if (metric === 'shares') return 0;
      } else if (numbers && numbers.length === 1) {
        if (metric === 'reactions') return parseInt(numbers[0], 10);
      }
    }
  }
  \<close>
\<close>

definition fromTotals :: "article \<Rightarrow> metric \<Rightarrow> real number option" where
  "fromTotals a m =
     (if rx_test True totalLabel (innerText a) then
        (case rx_split True totalLabelSplit (normalizeArabicDigits (innerText a)) of
           _ # afterLabel # _ \<Rightarrow>
             if afterLabel = [] then None
             else
               let numbers = rx_match_all False wholeNumber None afterLabel
               in if 4 \<le> length numbers then
                    (case m of Reactions \<Rightarrow> Some (parseInt (numbers ! 0))
                     | Comments \<Rightarrow> Some (parseInt (numbers ! 2))
                     | Shares \<Rightarrow> Some (parseInt (numbers ! 3)))
                  else if 2 \<le> length numbers then
                    (case m of Reactions \<Rightarrow> Some (parseInt (numbers ! 0))
                     | Comments \<Rightarrow> Some (parseInt (numbers ! 1))
                     | Shares \<Rightarrow> Some (Num 0))
                  else if length numbers = 1 then
                    (case m of Reactions \<Rightarrow> Some (parseInt (numbers ! 0)) | _ \<Rightarrow> None)
                  else None
         | _ \<Rightarrow> None)
      else None)"

text \<open>The label patterns of strategy 2: \<^verbatim>\<open>/AEJAB|like|TFAEL|react/i\<close> for reactions,
  \<^verbatim>\<open>/TELYQ|comment|RD/i\<close> for comments, \<^verbatim>\<open>/MSHARKA|share/i\<close> for shares.\<close>

definition metricLabel :: "metric \<Rightarrow> rx" where
  "metricLabel m =
     (case m of
        Reactions \<Rightarrow> Alts [Lit [0x627, 0x639, 0x62C, 0x627, 0x628], Lit (js ''like''),
                            Lit [0x62A, 0x641, 0x627, 0x639, 0x644], Lit (js ''react'')]
      | Comments \<Rightarrow> Alts [Lit [0x62A, 0x639, 0x644, 0x64A, 0x642], Lit (js ''comment''),
                           Lit [0x631, 0x62F]]
      | Shares \<Rightarrow> Alts [Lit [0x645, 0x634, 0x627, 0x631, 0x643, 0x629], Lit (js ''share'')])"

text \<open>
  One button of strategy 2, as the value returned at it, if any:
  \<^verbatim>\<open>
    const label = arabicToLatin((btn.getAttribute('aria-label') || '').toLowerCase());
    if (metric === 'reactions' && /.../i.test(label)) {
      const match = label.match(/(\d+)/);
      if (match) return parseInt(match[1], 10);
    }
  \<close>
  and likewise for the other two metrics.
\<close>

definition buttonValue :: "metric \<Rightarrow> jsstring \<Rightarrow> real number option" where
  "buttonValue m raw =
     (let label = normalizeArabicDigits (toLowerCase raw)
      in if rx_test True (metricLabel m) label then
           (case rx_group False (Grp 1 (Plus digitCls)) 1 label of
              Some d \<Rightarrow> Some (parseInt d)
            | None \<Rightarrow> None)
         else None)"

text \<open>\<^verbatim>\<open>extractEngagement(article, metric)\<close>: strategy 1, then strategy 2, then
  \<^verbatim>\<open>return 0\<close>.\<close>

definition extractEngagement :: "article \<Rightarrow> metric \<Rightarrow> real number" where
  "extractEngagement a m =
     (case fromTotals a m of
        Some n \<Rightarrow> n
      | None \<Rightarrow>
          (case firstSome (buttonValue m) (ariaLabels a) of
             Some n \<Rightarrow> n
           | None \<Rightarrow> Num 0))"

section \<open>From articles to post records\<close>

subsection \<open>scraper.js\<close>

text \<open>The record built for each article, \<^verbatim>\<open>{ text, reactions, date }\<close>; \<open>None\<close> is
  \<^verbatim>\<open>null\<close>. (The field \<^verbatim>\<open>text\<close> is called \<open>postText\<close> here.)\<close>

record post =
  postText :: jsstring
  reactions :: "real number option"
  date :: "jsstring option"

definition toPost :: "article \<Rightarrow> post" where
  "toPost a = \<lparr>postText = cleanText (innerText a), reactions = extractReactions a,
               date = dateFound a\<rparr>"

text \<open>
  The deduplication loop, with the set \<^verbatim>\<open>seen\<close> as an argument:
  \<^verbatim>\<open>
  const seen = new Set();
  const unique = [];
  for (const p of arr) {
    const key = p.text;
    if (!seen.has(key)) { seen.add(key); unique.push(p); }
  }
  return unique;
  \<close>
\<close>

fun uniqueFrom :: "jsstring set \<Rightarrow> post list \<Rightarrow> post list" where
  "uniqueFrom seen [] = []"
| "uniqueFrom seen (p # ps) =
     (if postText p \<notin> seen then p # uniqueFrom (insert (postText p) seen) ps
      else uniqueFrom seen ps)"

text \<open>The callback of \<^verbatim>\<open>page.$$eval('div[role="article"]', ...)\<close>: map, filter
  \<^verbatim>\<open>p.text && p.text.length > 0\<close>, deduplicate.\<close>

definition extractPosts :: "article list \<Rightarrow> post list" where
  "extractPosts nodes = uniqueFrom {} (filter (\<lambda>p. postText p \<noteq> []) (map toPost nodes))"

text \<open>\<^verbatim>\<open>xs.slice(0, n)\<close> for an integer \<open>n\<close>; a negative \<open>n\<close> counts from the end.\<close>

definition sliceTo :: "int \<Rightarrow> 'a list \<Rightarrow> 'a list" where
  "sliceTo n xs = (if 0 \<le> n then take (nat n) xs else take (length xs - nat (- n)) xs)"

text \<open>\<^verbatim>\<open>posts.slice(0, POSTS_TARGET)\<close>, the posts that reach the result.\<close>

definition scrapedPosts :: "int \<Rightarrow> article list \<Rightarrow> post list" where
  "scrapedPosts target nodes = sliceTo target (extractPosts nodes)"

text \<open>The enriched record \<^verbatim>\<open>{ ...p, dateISO: parseDateToISO(p.date) || null }\<close>.\<close>

record enrichedPost = post +
  dateISO :: "jsstring option"

text \<open>\<^verbatim>\<open>v || null\<close> for a string or \<^verbatim>\<open>null\<close>.\<close>

definition orNull :: "jsstring option \<Rightarrow> jsstring option" where
  "orNull v = (case v of None \<Rightarrow> None | Some s \<Rightarrow> if s = [] then None else Some s)"

definition enrich :: "(jsstring option \<Rightarrow> jsstring option) \<Rightarrow> post \<Rightarrow> enrichedPost" where
  "enrich toISO p = \<lparr>postText = postText p, reactions = reactions p, date = date p,
                      dateISO = orNull (toISO (date p))\<rparr>"


subsection \<open>scraper-optimized.js\<close>

text \<open>The record \<^verbatim>\<open>{ id, text, reactions, comments, shares, total_engagement, date }\<close>
  (\<open>oid\<close>, \<open>otext\<close>, \<open>oreactions\<close> and \<open>odate\<close> stand for \<^verbatim>\<open>id\<close>, \<^verbatim>\<open>text\<close>,
  \<^verbatim>\<open>reactions\<close> and \<^verbatim>\<open>date\<close>).\<close>

record opost =
  oid :: nat
  otext :: jsstring
  oreactions :: "real number"
  comments :: "real number"
  shares :: "real number"
  total_engagement :: "real number"
  odate :: "jsstring option"

text \<open>
  \<^verbatim>\<open>
  nodes.map((article, idx) => {
    const text = extractPostText(article);
    const reactions = extractEngagement(article, 'reactions');
    const comments = extractEngagement(article, 'comments');
    const shares = extractEngagement(article, 'shares');
    const date = extractDate(article);
    const totalEngagement = reactions + comments + shares;
    return { id: idx + 1, text: text || 'N/A', reactions, comments, shares,
             total_engagement: totalEngagement, date: date || null };
  }).filter(p => p.text && p.text !== 'N/A' && p.text.length > 5);
  \<close>
\<close>

definition toOpost :: "nat \<Rightarrow> article \<Rightarrow> opost" where
  "toOpost idx a =
     (let t = extractPostText a;
          r = extractEngagement a Reactions;
          c = extractEngagement a Comments;
          s = extractEngagement a Shares
      in \<lparr>oid = idx + 1, otext = (if t = [] then js ''N/A'' else t), oreactions = r,
           comments = c, shares = s, total_engagement = addNum (addNum r c) s,
           odate = orNull (dateFound a)\<rparr>)"

definition extractOposts :: "article list \<Rightarrow> opost list" where
  "extractOposts nodes =
     filter (\<lambda>p. otext p \<noteq> [] \<and> otext p \<noteq> js ''N/A'' \<and> 5 < length (otext p))
            (map (\<lambda>(idx, a). toOpost idx a) (enumerate 0 nodes))"

text \<open>\<^verbatim>\<open>posts.slice(0, POSTS_TARGET)\<close>, the posts of the result.\<close>

definition optimizedPosts :: "int \<Rightarrow> article list \<Rightarrow> opost list" where
  "optimizedPosts target nodes = sliceTo target (extractOposts nodes)"

text \<open>A number that is a count: a finite number that is a natural number, or the
  \<^verbatim>\<open>Infinity\<close> that a run of digits beyond the range of a double is read as.\<close>

definition countNumber :: "real number \<Rightarrow> bool" where
  "countNumber v = (case v of Num x \<Rightarrow> 0 \<le> x \<and> of_int \<lfloor>x\<rfloor> = x | Infinity \<Rightarrow> True | _ \<Rightarrow> False)"

section \<open>A small feed\<close>

text \<open>Five articles on which the definitions are evaluated: two with the same text once
  cleaned, one that is only a "see more" label, one plain, and one with the "all
  reactions" label and its four numbers.\<close>

definition allReactionsLabel :: jsstring where
  "allReactionsLabel = [0x643, 0x644, 32, 0x627, 0x644, 0x62A, 0x641, 0x627, 0x639, 0x644, 0x627, 0x62A, 58, 32]"

definition feed :: "article list" where
  "feed =
     [\<lparr>innerText = js ''Good news Like'', ariaLabels = [js ''Like: 12 people''], spanTexts = [],
       dateFound = None\<rparr>,
      \<lparr>innerText = js ''Good news Share'', ariaLabels = [], spanTexts = [], dateFound = None\<rparr>,
      \<lparr>innerText = js ''See more'', ariaLabels = [], spanTexts = [], dateFound = None\<rparr>,
      \<lparr>innerText = js ''Rain today'', ariaLabels = [], spanTexts = [], dateFound = None\<rparr>,
      \<lparr>innerText = js ''Big day '' @ allReactionsLabel @ js ''57 57 2 8'', ariaLabels = [],
       spanTexts = [], dateFound = None\<rparr>]"

text \<open>An article that is only its action bar.\<close>

definition actionBar :: article where
  "actionBar = \<lparr>innerText = js ''Like Comment Share'', ariaLabels = [], spanTexts = [],
                 dateFound = None\<rparr>"

text \<open>An article whose reactions number is \<open>2\<^sup>5\<^sup>3\<close>.\<close>

definition bigPost :: article where
  "bigPost = \<lparr>innerText = js ''Big day '' @ allReactionsLabel @ js ''9007199254740992 1 1 0'',
               ariaLabels = [], spanTexts = [], dateFound = None\<rparr>"

section \<open>Properties of the load loops\<close>

lemma forLoop_unfold: "forLoop step maxLoops counts i st =
     (if int i < maxLoops then
        (case step st (counts i) of
           (sg, st') \<Rightarrow>
             let it = \<lparr>before = st, observed = counts i, ended = sg, after = st'\<rparr>
             in (case sg of
                   BreakTarget \<Rightarrow> \<lparr>outcome = TargetReached, history = [it]\<rparr>
                 | BreakStall \<Rightarrow> \<lparr>outcome = Stalled, history = [it]\<rparr>
                 | Continue \<Rightarrow>
                     (let r = forLoop step maxLoops counts (Suc i) st'
                      in r\<lparr>history := it # history r\<rparr>)))
      else \<lparr>outcome = LoopsExhausted, history = []\<rparr>)"
  by (rule forLoop.simps)

declare forLoop.simps [simp del]


text \<open>Once no later count exceeds \<open>lastCount\<close>, every further iteration is a stall.\<close>

lemma load_stalling:
  assumes "\<forall>j\<ge>i. counts j \<le> lastCount st"
    and "int (stalls st) < stallLimit"
    and "int i + (stallLimit - int (stalls st)) \<le> maxLoops"
  shows "outcome (forLoop (loadStep target stallLimit) maxLoops counts i st) \<noteq> LoopsExhausted
       \<and> int (length (history (forLoop (loadStep target stallLimit) maxLoops counts i st))) \<le> stallLimit - int (stalls st)
       \<and> int (finalStalls (forLoop (loadStep target stallLimit) maxLoops counts i st)) \<le> stallLimit"
  using assms
proof (induction "nat (stallLimit - int (stalls st))" arbitrary: i st)
  case 0
  then show ?case by simp
next
  case (Suc n)
  have lt: "int i < maxLoops" using Suc.prems by linarith
  have le: "counts i \<le> lastCount st" using Suc.prems(1) by simp
  show ?case
  proof (cases "target \<le> int (counts i)")
    case True
    then show ?thesis using lt Suc.prems
      by (subst forLoop_unfold, subst forLoop_unfold, subst forLoop_unfold)
         (simp add: loadStep_def finalStalls_def)
  next
    case False
    let ?st' = "st\<lparr>stalls := stalls st + 1\<rparr>"
    show ?thesis
    proof (cases "stallLimit \<le> int (stalls ?st')")
      case True
      then show ?thesis using lt le False Suc.prems
        by (subst forLoop_unfold, subst forLoop_unfold, subst forLoop_unfold)
           (simp add: loadStep_def finalStalls_def)
    next
      case F2: False
      have n: "n = nat (stallLimit - int (stalls ?st'))" using Suc.hyps(2) by simp
      have a1: "\<forall>j\<ge>Suc i. counts j \<le> lastCount ?st'" using Suc.prems(1) by simp
      have a2: "int (stalls ?st') < stallLimit" using F2 by simp
      have a3: "int (Suc i) + (stallLimit - int (stalls ?st')) \<le> maxLoops" using Suc.prems(3) by simp
      note IH = Suc.hyps(1)[OF n a1 a2 a3]
      have step: "loadStep target stallLimit st (counts i) = (Continue, ?st')"
        using False le F2 by (simp add: loadStep_def)
      have unf: "forLoop (loadStep target stallLimit) maxLoops counts i st =
         (let r = forLoop (loadStep target stallLimit) maxLoops counts (Suc i) ?st'
          in r\<lparr>history := \<lparr>before = st, observed = counts i, ended = Continue, after = ?st'\<rparr> # history r\<rparr>)"
        using lt step by (subst forLoop_unfold) simp
      show ?thesis using IH unfolding unf
        by (auto simp: Let_def finalStalls_def split: list.splits)
    qed
  qed
qed

lemma opt_stalling:
  assumes "\<forall>j. counts (Suc j) \<le> counts j"
    and "counts i \<le> lastCount st"
    and "stalls st < 5"
    and "i + (5 - stalls st) \<le> 100"
  shows "outcome (forLoop (optimizedStep target) 100 counts i st) \<noteq> LoopsExhausted
       \<and> length (history (forLoop (optimizedStep target) 100 counts i st)) \<le> 5 - stalls st
       \<and> finalStalls (forLoop (optimizedStep target) 100 counts i st) \<le> 5"
  using assms(2-)
proof (induction "5 - stalls st" arbitrary: i st)
  case 0
  then show ?case by simp
next
  case (Suc n)
  have lt: "int i < 100" using Suc.prems by linarith
  have le: "counts i \<le> lastCount st" using Suc.prems(1) by simp
  show ?case
  proof (cases "target \<le> int (counts i)")
    case True
    then show ?thesis using lt Suc.prems
      by (subst forLoop_unfold, subst forLoop_unfold, subst forLoop_unfold)
         (simp add: optimizedStep_def finalStalls_def)
  next
    case False
    let ?st' = "\<lparr>lastCount = counts i, stalls = stalls st + 1\<rparr>"
    show ?thesis
    proof (cases "5 \<le> stalls ?st'")
      case True
      then show ?thesis using lt le False Suc.prems
        by (subst forLoop_unfold, subst forLoop_unfold, subst forLoop_unfold)
           (simp add: optimizedStep_def finalStalls_def)
    next
      case F2: False
      have n: "n = 5 - stalls ?st'" using Suc.hyps(2) by simp
      have a1: "counts (Suc i) \<le> lastCount ?st'" using assms(1) by simp
      have a2: "stalls ?st' < 5" using F2 by simp
      have a3: "Suc i + (5 - stalls ?st') \<le> 100" using Suc.prems(3) a2 by simp
      note IH = Suc.hyps(1)[OF n a1 a2 a3]
      have step: "optimizedStep target st (counts i) = (Continue, ?st')"
        using False le F2 by (simp add: optimizedStep_def)
      have unf: "forLoop (optimizedStep target) 100 counts i st =
         (let r = forLoop (optimizedStep target) 100 counts (Suc i) ?st'
          in r\<lparr>history := \<lparr>before = st, observed = counts i, ended = Continue, after = ?st'\<rparr> # history r\<rparr>)"
        using lt step by (subst forLoop_unfold) simp
      show ?thesis using IH Suc.prems(2) unfolding unf
        by (auto simp: Let_def finalStalls_def split: list.splits)
    qed
  qed
qed

lemma nonincreasing_le: "\<forall>j. counts (Suc j) \<le> (counts j :: nat) \<Longrightarrow> i \<le> j \<Longrightarrow> counts j \<le> counts i"
  by (induction j) (auto simp: le_Suc_eq intro: order_trans)

lemma loadArticles_stall:
  assumes mono: "\<forall>j. counts (Suc j) \<le> counts j"
    and "0 \<le> stallLimit" and "stallLimit < maxLoops"
  shows "outcome (loadArticles target stallLimit maxLoops counts) \<noteq> LoopsExhausted
       \<and> int (iterations (loadArticles target stallLimit maxLoops counts)) \<le> stallLimit + 1
       \<and> int (finalStalls (loadArticles target stallLimit maxLoops counts)) \<le> max 1 stallLimit"
proof -
  let ?run = "forLoop (loadStep target stallLimit) maxLoops counts"
  have lt: "int 0 < maxLoops" using assms by simp
  consider (tgt) "target \<le> int (counts 0)"
    | (zero) "\<not> target \<le> int (counts 0)" "stallLimit = 0"
    | (stall) "\<not> target \<le> int (counts 0)" "0 < stallLimit" "counts 0 = 0"
    | (grow) "\<not> target \<le> int (counts 0)" "0 < stallLimit" "0 < counts 0"
    using assms(2) by linarith
  then show ?thesis
  proof cases
    case tgt
    then show ?thesis using lt assms(2) unfolding loadArticles_def iterations_def
      by (subst forLoop_unfold, subst forLoop_unfold, subst forLoop_unfold)
         (simp add: loadStep_def finalStalls_def initialState_def)
  next
    case zero
    then show ?thesis using lt unfolding loadArticles_def iterations_def
      by (subst forLoop_unfold, subst forLoop_unfold, subst forLoop_unfold)
         (simp add: loadStep_def finalStalls_def initialState_def Let_def)
  next
    case stall
    have a1: "\<forall>j\<ge>0. counts j \<le> lastCount initialState"
      using nonincreasing_le[OF mono, of 0] stall(3) by (simp add: initialState_def)
    have a2: "int (stalls initialState) < stallLimit" using stall(2) by (simp add: initialState_def)
    have a3: "int 0 + (stallLimit - int (stalls initialState)) \<le> maxLoops"
      using assms(3) by (simp add: initialState_def)
    show ?thesis using load_stalling[OF a1 a2 a3, of target] stall(2)
      unfolding loadArticles_def iterations_def by (simp add: initialState_def)
  next
    case grow
    let ?st' = "\<lparr>lastCount = counts 0, stalls = 0\<rparr>"
    have step: "loadStep target stallLimit initialState (counts 0) = (Continue, ?st')"
      using grow by (simp add: loadStep_def initialState_def)
    have unf: "?run 0 initialState =
         (let r = ?run (Suc 0) ?st'
          in r\<lparr>history := \<lparr>before = initialState, observed = counts 0, ended = Continue, after = ?st'\<rparr> # history r\<rparr>)"
      using lt step by (subst forLoop_unfold) simp
    have a1: "\<forall>j\<ge>Suc 0. counts j \<le> lastCount ?st'"
      using nonincreasing_le[OF mono, of 0] by simp
    have a2: "int (stalls ?st') < stallLimit" using grow(2) by simp
    have a3: "int (Suc 0) + (stallLimit - int (stalls ?st')) \<le> maxLoops"
      using assms(3) by simp
    show ?thesis using load_stalling[OF a1 a2 a3, of target] grow(2)
      unfolding loadArticles_def iterations_def unf
      by (auto simp: Let_def finalStalls_def split: list.splits)
  qed
qed

lemma optimizedLoad_stall:
  assumes mono: "\<forall>j. counts (Suc j) \<le> counts j"
  shows "outcome (optimizedLoad target counts) \<noteq> LoopsExhausted
       \<and> iterations (optimizedLoad target counts) \<le> 6
       \<and> finalStalls (optimizedLoad target counts) \<le> 5"
proof -
  let ?run = "forLoop (optimizedStep target) 100 counts"
  have lt: "int 0 < 100" by simp
  consider (tgt) "target \<le> int (counts 0)"
    | (stall) "\<not> target \<le> int (counts 0)" "counts 0 = 0"
    | (grow) "\<not> target \<le> int (counts 0)" "0 < counts 0"
    by linarith
  then show ?thesis
  proof cases
    case tgt
    then show ?thesis using lt unfolding optimizedLoad_def iterations_def
      by (subst forLoop_unfold, subst forLoop_unfold, subst forLoop_unfold)
         (simp add: optimizedStep_def finalStalls_def initialState_def)
  next
    case stall
    have a1: "counts 0 \<le> lastCount initialState"
      using stall(2) by (simp add: initialState_def)
    have a2: "stalls initialState < 5" by (simp add: initialState_def)
    have a3: "0 + (5 - stalls initialState) \<le> 100"
      by (simp add: initialState_def)
    show ?thesis using opt_stalling[OF mono a1 a2 a3, of target]
      unfolding optimizedLoad_def iterations_def by (simp add: initialState_def)
  next
    case grow
    let ?st' = "\<lparr>lastCount = counts 0, stalls = 0\<rparr>"
    have step: "optimizedStep target initialState (counts 0) = (Continue, ?st')"
      using grow by (simp add: optimizedStep_def initialState_def)
    have unf: "?run 0 initialState =
         (let r = ?run (Suc 0) ?st'
          in r\<lparr>history := \<lparr>before = initialState, observed = counts 0, ended = Continue, after = ?st'\<rparr> # history r\<rparr>)"
      using lt step by (subst forLoop_unfold) simp
    have a1: "counts (Suc 0) \<le> lastCount ?st'"
      using mono by simp
    have a2: "stalls ?st' < 5" by simp
    have a3: "Suc 0 + (5 - stalls ?st') \<le> 100" by simp
    show ?thesis using opt_stalling[OF mono a1 a2 a3, of target]
      unfolding optimizedLoad_def iterations_def unf
      by (auto simp: Let_def finalStalls_def split: list.splits)
  qed
qed

lemma forLoop_stop:
  "\<not> int i < maxLoops \<Longrightarrow> forLoop step maxLoops counts i st = \<lparr>outcome = LoopsExhausted, history = []\<rparr>"
  by (subst forLoop_unfold) simp

lemma forLoop_target:
  "int i < maxLoops \<Longrightarrow> step st (counts i) = (BreakTarget, st') \<Longrightarrow>
   forLoop step maxLoops counts i st =
     \<lparr>outcome = TargetReached, history = [\<lparr>before = st, observed = counts i, ended = BreakTarget, after = st'\<rparr>]\<rparr>"
  by (subst forLoop_unfold) simp

lemma forLoop_stall:
  "int i < maxLoops \<Longrightarrow> step st (counts i) = (BreakStall, st') \<Longrightarrow>
   forLoop step maxLoops counts i st =
     \<lparr>outcome = Stalled, history = [\<lparr>before = st, observed = counts i, ended = BreakStall, after = st'\<rparr>]\<rparr>"
  by (subst forLoop_unfold) simp

lemma forLoop_continue:
  "int i < maxLoops \<Longrightarrow> step st (counts i) = (Continue, st') \<Longrightarrow>
   forLoop step maxLoops counts i st =
     \<lparr>outcome = outcome (forLoop step maxLoops counts (Suc i) st'),
      history = \<lparr>before = st, observed = counts i, ended = Continue, after = st'\<rparr>
                # history (forLoop step maxLoops counts (Suc i) st')\<rparr>"
  by (subst forLoop_unfold) (simp add: Let_def)

lemma forLoop_history:
  "k < length (history (forLoop step maxLoops counts i st)) \<Longrightarrow>
   iterOK step maxLoops counts i (forLoop step maxLoops counts i st) k"
proof (induction step maxLoops counts i st arbitrary: k rule: forLoop.induct)
  case (1 step maxLoops counts i st)
  show ?case
  proof (cases "int i < maxLoops")
    case False
    then show ?thesis using "1.prems" by (simp add: forLoop_stop)
  next
    case True
    obtain sg st' where stp: "step st (counts i) = (sg, st')" by (cases "step st (counts i)")
    show ?thesis
    proof (cases sg)
      case BreakTarget
      show ?thesis using "1.prems" stp True
        unfolding forLoop_target[where counts=counts and i=i and step=step, OF True stp[unfolded BreakTarget]] iterOK_def by (simp add: BreakTarget)
    next
      case BreakStall
      show ?thesis using "1.prems" stp True
        unfolding forLoop_stall[where counts=counts and i=i and step=step, OF True stp[unfolded BreakStall]] iterOK_def by (simp add: BreakStall)
    next
      case Continue
      let ?r = "forLoop step maxLoops counts (Suc i) st'"
      note unf = forLoop_continue[where counts=counts and i=i and step=step, OF True stp[unfolded Continue]]
      note IH = "1.IH"[OF True stp[symmetric] refl Continue]
      show ?thesis
      proof (cases k)
        case 0
        show ?thesis using True stp unfolding unf iterOK_def 0 by (simp add: Continue)
      next
        case (Suc k')
        then have "k' < length (history ?r)" using "1.prems" unfolding unf by simp
        from IH[OF this] have ih: "iterOK step maxLoops counts (Suc i) ?r k'" .
        have nth: "history (forLoop step maxLoops counts i st) ! k = history ?r ! k'"
          unfolding unf Suc by simp
        have len: "(length (history (forLoop step maxLoops counts i st)) = Suc k)
                 = (length (history ?r) = Suc k')"
          unfolding unf Suc by simp
        have lt: "(Suc k < length (history (forLoop step maxLoops counts i st)))
                 = (Suc k' < length (history ?r))"
          unfolding unf Suc by simp
        have out: "outcome (forLoop step maxLoops counts i st) = outcome ?r"
          unfolding unf by simp
        have idx: "i + k = Suc i + k'" unfolding Suc by simp
        show ?thesis using ih unfolding iterOK_def nth len lt out idx by blast
      qed
    qed
  qed
qed

lemma forLoop_chain:
  "k < length (history (forLoop step maxLoops counts i st)) \<Longrightarrow>
     before (history (forLoop step maxLoops counts i st) ! k) =
       (if k = 0 then st else after (history (forLoop step maxLoops counts i st) ! (k - 1)))"
proof (induction step maxLoops counts i st arbitrary: k rule: forLoop.induct)
  case (1 step maxLoops counts i st)
  show ?case
  proof (cases "int i < maxLoops")
    case False
    then show ?thesis using "1.prems" by (simp add: forLoop_stop)
  next
    case True
    obtain sg st' where stp: "step st (counts i) = (sg, st')" by (cases "step st (counts i)")
    show ?thesis
    proof (cases sg)
      case BreakTarget
      show ?thesis using "1.prems"
        unfolding forLoop_target[where counts=counts and i=i and step=step, OF True stp[unfolded BreakTarget]] by simp
    next
      case BreakStall
      show ?thesis using "1.prems"
        unfolding forLoop_stall[where counts=counts and i=i and step=step, OF True stp[unfolded BreakStall]] by simp
    next
      case Continue
      let ?r = "forLoop step maxLoops counts (Suc i) st'"
      note unf = forLoop_continue[where counts=counts and i=i and step=step, OF True stp[unfolded Continue]]
      note IH = "1.IH"[OF True stp[symmetric] refl Continue]
      show ?thesis
      proof (cases k)
        case 0
        show ?thesis unfolding unf 0 by simp
      next
        case (Suc k')
        then have "k' < length (history ?r)" using "1.prems" unfolding unf by simp
        from IH[OF this] show ?thesis unfolding unf Suc by (cases k') simp_all
      qed
    qed
  qed
qed

lemma in_history:
  assumes "it \<in> set (history (forLoop step maxLoops counts 0 st))"
  shows "step (before it) (observed it) = (ended it, after it)"
proof -
  from assms obtain k where k: "k < length (history (forLoop step maxLoops counts 0 st))"
    and it: "it = history (forLoop step maxLoops counts 0 st) ! k"
    by (auto simp: in_set_conv_nth)
  let ?h = "history (forLoop step maxLoops counts 0 st)"
  from forLoop_history[OF k]
  have a: "observed (?h ! k) = counts (0 + k)"
    and b: "step (before (?h ! k)) (counts (0 + k)) = (ended (?h ! k), after (?h ! k))"
    unfolding iterOK_def by blast+
  show ?thesis unfolding it a b ..
qed

lemma loadStep_rule:
  assumes "loadStep target stallLimit b c = (sg, a)"
  shows "(target \<le> int c \<longrightarrow> sg = BreakTarget \<and> a = b)
       \<and> (int c < target \<longrightarrow> sg \<noteq> BreakTarget
             \<and> (sg = BreakStall \<longleftrightarrow> stallLimit \<le> int (stalls a))
             \<and> (if lastCount b < c then stalls a = 0 \<and> lastCount a = c
                 else stalls a = stalls b + 1 \<and> lastCount a = lastCount b))"
  using assms by (auto simp: loadStep_def Let_def split: if_splits)

lemma optimizedStep_rule:
  assumes "optimizedStep target b c = (sg, a)"
  shows "(target \<le> int c \<longrightarrow> sg = BreakTarget \<and> a = b)
       \<and> (int c < target \<longrightarrow> sg \<noteq> BreakTarget
             \<and> (sg = BreakStall \<longleftrightarrow> 5 \<le> stalls a)
             \<and> (if lastCount b < c then stalls a = 0 \<and> lastCount a = c
                 else stalls a = stalls b + 1 \<and> lastCount a = c))"
  using assms by (auto simp: optimizedStep_def Let_def split: if_splits)

text \<open>
  Claim C5, as the code has it. In every run of either load loop, every executed
  iteration treats the stall counter by one rule. An iteration whose count has reached
  the target leaves the loop at once and changes nothing: there the counter keeps its
  value, also when the count went up. An iteration whose count is below the target does
  not leave at the target; it resets \<open>stalls\<close> to 0 when the observed count is above
  \<open>lastCount\<close> (and records the new count), and otherwise adds exactly one to it; it
  leaves by the stall \<^verbatim>\<open>break\<close> exactly when the counter has then reached the limit.
  (\<^verbatim>\<open>loadArticles\<close> keeps \<open>lastCount\<close> on a stall, the optimized loop overwrites it with
  the observed count.)
\<close>

theorem stall_counter_rule:
  "(\<forall>it \<in> set (history (loadArticles target stallLimit maxLoops counts)).
      (target \<le> int (observed it) \<longrightarrow> ended it = BreakTarget \<and> after it = before it)
    \<and> (int (observed it) < target \<longrightarrow> ended it \<noteq> BreakTarget
          \<and> (ended it = BreakStall \<longleftrightarrow> stallLimit \<le> int (stalls (after it)))
          \<and> (if lastCount (before it) < observed it
              then stalls (after it) = 0 \<and> lastCount (after it) = observed it
              else stalls (after it) = stalls (before it) + 1
                 \<and> lastCount (after it) = lastCount (before it))))
 \<and> (\<forall>it \<in> set (history (optimizedLoad target counts)).
      (target \<le> int (observed it) \<longrightarrow> ended it = BreakTarget \<and> after it = before it)
    \<and> (int (observed it) < target \<longrightarrow> ended it \<noteq> BreakTarget
          \<and> (ended it = BreakStall \<longleftrightarrow> 5 \<le> stalls (after it))
          \<and> (if lastCount (before it) < observed it
              then stalls (after it) = 0 \<and> lastCount (after it) = observed it
              else stalls (after it) = stalls (before it) + 1
                 \<and> lastCount (after it) = observed it)))"
proof (rule conjI; rule ballI)
  fix it assume "it \<in> set (history (loadArticles target stallLimit maxLoops counts))"
  then have "loadStep target stallLimit (before it) (observed it) = (ended it, after it)"
    unfolding loadArticles_def by (rule in_history)
  from loadStep_rule[OF this]
  show "(target \<le> int (observed it) \<longrightarrow> ended it = BreakTarget \<and> after it = before it)
    \<and> (int (observed it) < target \<longrightarrow> ended it \<noteq> BreakTarget
          \<and> (ended it = BreakStall \<longleftrightarrow> stallLimit \<le> int (stalls (after it)))
          \<and> (if lastCount (before it) < observed it
              then stalls (after it) = 0 \<and> lastCount (after it) = observed it
              else stalls (after it) = stalls (before it) + 1
                 \<and> lastCount (after it) = lastCount (before it)))" .
next
  fix it assume "it \<in> set (history (optimizedLoad target counts))"
  then have "optimizedStep target (before it) (observed it) = (ended it, after it)"
    unfolding optimizedLoad_def by (rule in_history)
  from optimizedStep_rule[OF this]
  show "(target \<le> int (observed it) \<longrightarrow> ended it = BreakTarget \<and> after it = before it)
    \<and> (int (observed it) < target \<longrightarrow> ended it \<noteq> BreakTarget
          \<and> (ended it = BreakStall \<longleftrightarrow> 5 \<le> stalls (after it))
          \<and> (if lastCount (before it) < observed it
              then stalls (after it) = 0 \<and> lastCount (after it) = observed it
              else stalls (after it) = stalls (before it) + 1
                 \<and> lastCount (after it) = observed it))" .
qed

lemma run_3_3_7:
  "history (loadArticles 5 2 10 (\<lambda>i. if i < 2 then 3 else 7)) =
      [\<lparr>before = \<lparr>lastCount = 0, stalls = 0\<rparr>, observed = 3, ended = Continue,
          after = \<lparr>lastCount = 3, stalls = 0\<rparr>\<rparr>,
       \<lparr>before = \<lparr>lastCount = 3, stalls = 0\<rparr>, observed = 3, ended = Continue,
          after = \<lparr>lastCount = 3, stalls = 1\<rparr>\<rparr>,
       \<lparr>before = \<lparr>lastCount = 3, stalls = 1\<rparr>, observed = 7, ended = BreakTarget,
          after = \<lparr>lastCount = 3, stalls = 1\<rparr>\<rparr>]"
  by (simp add: loadArticles_def forLoop_unfold loadStep_def initialState_def Let_def)

theorem stall_counter_rule_witness:
  "history (loadArticles 5 2 10 (\<lambda>i. if i < 2 then 3 else 7)) ! 1
     \<in> set (history (loadArticles 5 2 10 (\<lambda>i. if i < 2 then 3 else 7)))
   \<and> int (observed (history (loadArticles 5 2 10 (\<lambda>i. if i < 2 then 3 else 7)) ! 1)) < 5
   \<and> ended (history (loadArticles 5 2 10 (\<lambda>i. if i < 2 then 3 else 7)) ! 1) = Continue
   \<and> observed (history (loadArticles 5 2 10 (\<lambda>i. if i < 2 then 3 else 7)) ! 1) = 3
   \<and> lastCount (before (history (loadArticles 5 2 10 (\<lambda>i. if i < 2 then 3 else 7)) ! 1)) = 3
   \<and> stalls (after (history (loadArticles 5 2 10 (\<lambda>i. if i < 2 then 3 else 7)) ! 1))
       = stalls (before (history (loadArticles 5 2 10 (\<lambda>i. if i < 2 then 3 else 7)) ! 1)) + 1"
proof -
  let ?r = "loadArticles 5 2 10 (\<lambda>i. if i < 2 then 3 else 7)"
  note h = run_3_3_7
  have m: "history ?r ! 1 \<in> set (history ?r)" unfolding h by simp
  have lt: "int (observed (history ?r ! 1)) < 5" unfolding h by simp
  from stall_counter_rule[of 5 2 10 "\<lambda>i. if i < 2 then 3 else 7"] m lt
  have "(if lastCount (before (history ?r ! 1)) < observed (history ?r ! 1)
         then stalls (after (history ?r ! 1)) = 0
            \<and> lastCount (after (history ?r ! 1)) = observed (history ?r ! 1)
         else stalls (after (history ?r ! 1)) = stalls (before (history ?r ! 1)) + 1
            \<and> lastCount (after (history ?r ! 1)) = lastCount (before (history ?r ! 1)))"
    by blast
  then show ?thesis using m unfolding h by simp
qed

text \<open>The claim as stated fails on the iteration that reaches the target: in the run
  that observes 3, 3 and 7 articles with a target of 5, the third iteration observes a
  count above \<open>lastCount\<close>, and the stall counter stays at 1.\<close>

theorem stall_counter_kept_at_target:
  "length (history (loadArticles 5 2 10 (\<lambda>i. if i < 2 then 3 else 7))) = 3
   \<and> lastCount (before (history (loadArticles 5 2 10 (\<lambda>i. if i < 2 then 3 else 7)) ! 2)) = 3
   \<and> observed (history (loadArticles 5 2 10 (\<lambda>i. if i < 2 then 3 else 7)) ! 2) = 7
   \<and> stalls (before (history (loadArticles 5 2 10 (\<lambda>i. if i < 2 then 3 else 7)) ! 2)) = 1
   \<and> stalls (after (history (loadArticles 5 2 10 (\<lambda>i. if i < 2 then 3 else 7)) ! 2)) = 1"
  unfolding run_3_3_7 by simp

section \<open>Rounding to a double\<close>

lemma bitLength_0: "bitLength 0 = 0"
  by (simp add: bitLength.simps)

lemma bitLength_1: "bitLength (Suc 0) = Suc 0"
  by (simp add: bitLength.simps)

lemma bitLength_numeral: "bitLength (numeral k) = Suc (bitLength (numeral k div 2))"
  by (subst bitLength.simps) simp

lemmas double_simps = toDouble_def ilog2_def pow2_def roundHalfEven_def bitLength_0 bitLength_1
  bitLength_numeral Let_def floor_divide_eq_div_numeral timesNum_def addNum_def mathRound_def
  finiteOrNull_def

lemma bitLength_less: "n < 2 ^ k \<Longrightarrow> bitLength n \<le> k"
proof (induction k arbitrary: n)
  case 0
  then show ?case by (simp add: bitLength.simps)
next
  case (Suc k)
  show ?case
  proof (cases "n = 0")
    case True
    then show ?thesis by (simp add: bitLength.simps)
  next
    case False
    from Suc.prems have "n div 2 < 2 ^ k" by simp
    from Suc.IH[OF this] show ?thesis using False by (subst bitLength.simps) simp
  qed
qed

lemma roundHalfEven_of_int: "roundHalfEven (of_int k) = k"
  by (simp add: roundHalfEven_def)

lemma roundHalfEven_nonneg: "0 \<le> y \<Longrightarrow> 0 \<le> roundHalfEven y"
  by (auto simp: roundHalfEven_def Let_def)

lemma pow2_pos: "0 < pow2 e"
  by (simp add: pow2_def)

lemma scaled_exact:
  assumes "e \<le> 0"
  shows "of_int (roundHalfEven (of_int m / pow2 e)) * pow2 e = (of_int m :: real)"
proof -
  define k where "k = nat (- e)"
  have p: "pow2 e = 1 / 2 ^ k"
  proof (cases "e = 0")
    case True
    then show ?thesis by (simp add: pow2_def k_def)
  next
    case False
    with assms show ?thesis by (simp add: pow2_def k_def)
  qed
  have "of_int m / pow2 e = (of_int (m * 2 ^ k) :: real)" unfolding p by simp
  then have "roundHalfEven (of_int m / pow2 e) = m * 2 ^ k"
    by (simp only: roundHalfEven_of_int)
  then show ?thesis unfolding p by simp
qed

text \<open>Every natural number up to \<open>2\<^sup>5\<^sup>3\<close> is a double.\<close>

lemma toDouble_nat_exact:
  assumes "n \<le> 2 ^ 53"
  shows "toDouble (of_nat n) = Num (of_nat n)"
proof -
  consider "n = 0" | "n = 2 ^ 53" | "1 \<le> n" "n < 2 ^ 53" using assms by linarith
  then show ?thesis
  proof cases
    case 1
    then show ?thesis by (simp add: toDouble_def)
  next
    case 2
    have "toDouble 9007199254740992 = Num 9007199254740992" by (simp add: double_simps)
    with 2 show ?thesis by simp
  next
    case 3
    define e where "e = max (ilog2 \<bar>of_nat n\<bar>) (- 1022) - 52"
    have "bitLength n \<le> 53" using 3(2) by (rule bitLength_less)
    moreover have "ilog2 \<bar>of_nat n\<bar> = int (bitLength n) - 1" using 3(1) by (simp add: ilog2_def)
    ultimately have e: "e \<le> 0" unfolding e_def by simp
    have y: "of_int (roundHalfEven (of_nat n / pow2 e)) * pow2 e = (of_nat n :: real)"
      using scaled_exact[OF e, of "int n"] by simp
    have b: "(of_nat n :: real) < 2 ^ 1024"
    proof -
      have "(of_nat n :: real) < 2 ^ 53" using 3(2) by (metis of_nat_less_iff of_nat_numeral of_nat_power)
      also have "\<dots> < (2 :: real) ^ 1024" by simp
      finally show ?thesis .
    qed
    have nz: "(of_nat n :: real) \<noteq> 0" using 3(1) by simp
    have nn: "\<not> (of_nat n :: real) \<le> - (2 ^ 1024)"
    proof -
      have "- (2 ^ 1024) < (0 :: real)" by simp
      also have "\<dots> \<le> of_nat n" by simp
      finally show ?thesis by simp
    qed
    show ?thesis using nz b nn unfolding toDouble_def Let_def e_def[symmetric] y by simp
  qed
qed

text \<open>The double nearest a natural number is a natural number, or \<^verbatim>\<open>Infinity\<close>.\<close>

lemma toDouble_nat_count: "countNumber (toDouble (of_nat n))"
proof (cases "n = 0")
  case True
  then show ?thesis by (simp add: toDouble_def countNumber_def)
next
  case False
  define e where "e = max (ilog2 \<bar>of_nat n\<bar>) (- 1022) - 52"
  define y where "y = of_int (roundHalfEven (of_nat n / pow2 e)) * pow2 e"
  have "\<exists>k :: nat. y = of_nat k"
  proof (cases "e \<le> 0")
    case True
    from scaled_exact[OF True, of "int n"] show ?thesis unfolding y_def by auto
  next
    case False
    then have p: "pow2 e = 2 ^ nat e" by (simp add: pow2_def)
    have "0 \<le> roundHalfEven (of_nat n / pow2 e)"
      by (rule roundHalfEven_nonneg) (simp add: p)
    then obtain q :: nat where q: "roundHalfEven (of_nat n / pow2 e) = int q"
      using nonneg_int_cases by blast
    have "y = of_int (int q) * pow2 e" unfolding y_def by (simp only: q)
    then have "y = of_nat (q * 2 ^ nat e)" by (simp add: p)
    then show ?thesis ..
  qed
  then obtain k :: nat where k: "y = of_nat k" ..
  have nn: "\<not> (of_nat k :: real) \<le> - (2 ^ 1024)"
  proof -
    have "- (2 ^ 1024) < (0 :: real)" by simp
    also have "\<dots> \<le> of_nat k" by simp
    finally show ?thesis by simp
  qed
  have nz: "(of_nat n :: real) \<noteq> 0" using False by simp
  show ?thesis using nz nn
    unfolding toDouble_def Let_def e_def[symmetric] y_def[symmetric] k
    by (simp add: countNumber_def)
qed

lemma countNumber_0: "countNumber (Num 0)"
  by (simp add: countNumber_def)

lemma countNumber_cases:
  assumes "countNumber v"
  obtains "v = Infinity" | k :: nat where "v = Num (of_nat k)"
proof (cases v)
  case (Num x)
  with assms have x: "0 \<le> x" "of_int \<lfloor>x\<rfloor> = x" by (simp_all add: countNumber_def)
  then have "0 \<le> \<lfloor>x\<rfloor>" by simp
  then obtain k :: nat where "\<lfloor>x\<rfloor> = int k" using nonneg_int_cases by blast
  with x(2) have "x = of_nat k" by (metis of_int_of_nat_eq)
  with Num that(2) show ?thesis by blast
qed (use assms that in \<open>simp_all add: countNumber_def\<close>)

text \<open>The sum of counts is a count, and it is exact as long as it does not exceed
  \<open>2\<^sup>5\<^sup>3\<close>.\<close>

lemma addNum_count: "countNumber a \<Longrightarrow> countNumber b \<Longrightarrow> countNumber (addNum a b)"
proof -
  assume a: "countNumber a" and b: "countNumber b"
  show ?thesis
  proof (cases rule: countNumber_cases[OF a])
    case 1
    then show ?thesis using b by (auto simp: addNum_def countNumber_def split: number.splits)
  next
    case (2 k)
    show ?thesis
    proof (cases rule: countNumber_cases[OF b])
      case 1
      then show ?thesis using 2 by (simp add: addNum_def countNumber_def)
    next
      case (2 j)
      have "addNum a b = toDouble (of_nat (k + j))"
        unfolding \<open>a = Num (of_nat k)\<close> 2 by (simp add: addNum_def)
      then show ?thesis using toDouble_nat_count[of "k + j"] by simp
    qed
  qed
qed

lemma addNum_exact:
  "k + j \<le> 2 ^ 53 \<Longrightarrow> addNum (Num (of_nat k)) (Num (of_nat j)) = Num (of_nat (k + j))"
  using toDouble_nat_exact[of "k + j"] by (simp add: addNum_def)

text \<open>Some values, which agree with what the arithmetic of doubles gives.\<close>

lemma toDouble_examples:
  "toDouble (1001 / 2000) = Num (2254051613498933 / 4503599627370496)"
  "toDouble (2254051613498933 / 4503599627370496 * 1000) = Num (8804889115230207 / 17592186044416)"
  "toDouble 9007199254740993 = Num 9007199254740992"
  "toDouble 9007199254740995 = Num 9007199254740996"
  "toDouble (2 ^ 1024 - 2 ^ 970) = Infinity"
  "toDouble (2 ^ 1024 - 2 ^ 970 - 1) = Num (2 ^ 1024 - 2 ^ 971)"
  "toDouble (1 / 2 ^ 1075 + 1 / 2 ^ 1080) = Num (1 / 2 ^ 1074)"
  "toDouble (1 / 2 ^ 1075) = Num 0"
  by (simp_all add: double_simps)

section \<open>Facts about the matcher\<close>

text \<open>The equations of the matcher and of the functions built on it are applied by name
  where a proof needs them; the sets \<open>rx_simps\<close> and \<open>js_simps\<close> evaluate them on a
  concrete input.\<close>

lemmas ms_Star = ms.simps(6)
declare ms.simps(6) [simp del]

lemma ms_Star_elem:
  assumes "c' \<in> set (ms ic (Star a) c)"
  shows "c' = c \<or> (\<exists>c1. c1 \<in> set (ms ic a c) \<and> length (rest c1) < length (rest c)
                       \<and> c' \<in> set (ms ic (Star a) c1))"
proof -
  from assms have "c' \<in> set (concat (map (\<lambda>c'. if length (rest c') < length (rest c) then ms ic (Star a) c' else [])
                 (ms ic a c)) @ [c])"
    by (subst (asm) ms_Star)
  then show ?thesis by (auto split: if_splits)
qed

lemma ms_Chr_elem:
  "c' \<in> set (ms ic (Chr a) c) \<Longrightarrow> \<exists>x. rest c = x # rest c' \<and> unitEq ic a x \<and> caps c' = caps c"
  by (cases "rest c") (auto split: if_splits)

lemma ms_Cls_elem:
  "c' \<in> set (ms ic (Cls rs) c) \<Longrightarrow> \<exists>x. rest c = x # rest c' \<and> clsMatch ic rs x \<and> caps c' = caps c"
  by (cases "rest c") (auto split: if_splits)

lemma ms_Seq_elem:
  "c' \<in> set (ms ic (Seq a b) c) \<Longrightarrow> \<exists>c1 \<in> set (ms ic a c). c' \<in> set (ms ic b c1)"
  by auto

lemma ms_Grp_elem:
  "c' \<in> set (ms ic (Grp n a) c) \<Longrightarrow>
     \<exists>c2 \<in> set (ms ic a c). rest c' = rest c2 \<and> prv c' = prv c2
        \<and> caps c' = (n, take (length (rest c) - length (rest c2)) (rest c)) # caps c2"
  by auto

lemma ms_WordB_elem: "c' \<in> set (ms ic WordB c) \<Longrightarrow> c' = c"
  by (auto split: if_splits)

lemma ms_rest_le: "c' \<in> set (ms ic r c) \<Longrightarrow> length (rest c') \<le> length (rest c)"
proof (induction ic r c arbitrary: c' rule: ms.induct)
  case (1 ic c)
  then show ?case by simp
next
  case (2 ic a c)
  from ms_Chr_elem[OF "2.prems"] show ?case by auto
next
  case (3 ic rs c)
  from ms_Cls_elem[OF "3.prems"] show ?case by auto
next
  case (4 ic a b c)
  from "4.prems" obtain c1 where c1: "c1 \<in> set (ms ic a c)" and c': "c' \<in> set (ms ic b c1)"
    by auto
  from "4.IH"(1)[OF c1] "4.IH"(2)[OF c1 c'] show ?case by simp
next
  case (5 ic a b c)
  then show ?case by auto
next
  case (6 ic a c)
  from ms_Star_elem[OF "6.prems"] consider (here) "c' = c"
    | (more) c1 where "c1 \<in> set (ms ic a c)" "length (rest c1) < length (rest c)"
        "c' \<in> set (ms ic (Star a) c1)"
    by blast
  then show ?case
  proof cases
    case here
    then show ?thesis by simp
  next
    case more
    from "6.IH"(2)[OF more(1) more(2) more(3)] more(2) show ?thesis by simp
  qed
next
  case (7 ic n a c)
  then show ?case by auto
next
  case (8 ic c)
  then show ?case by (auto split: if_splits)
qed

declare rx_replace.simps [simp del] rx_match_all.simps [simp del] rx_split_from.simps [simp del]

lemmas rx_simps = ms_Star rx_replace.simps rx_match_all.simps rx_split_from.simps rx_split_def
  js_def rx_test_def rx_exec_def rx_group_def atBoundary_def isWordChar_def unitEq_def
  Plus_def Opt_def digitCls_def spaceCls_def clsMatch_def inRanges_def canonicalize_def
  isDigit_def isSpace_def toLowerCase_def lowerUnit_def trim_def

lemmas js_simps = rx_simps normalizeArabicDigits_def numericToken_def parseFloat_def
  parseInt_def digitsValue_def double_simps
  seeMore_def splitOn_def firstPart_def collapseSpaces_def

lemma ms_digit_first:
  assumes "c' \<in> set (ms False (Seq digitCls r) c)"
  shows "\<exists>x xs. rest c = x # xs \<and> isDigit x \<and> length (rest c') \<le> length xs"
proof -
  from assms obtain c1 where c1: "c1 \<in> set (ms False digitCls c)" and c': "c' \<in> set (ms False r c1)"
    by auto
  from ms_Cls_elem[OF c1[unfolded digitCls_def]]
  obtain x where x: "rest c = x # rest c1" "clsMatch False [(48, 57)] x" by blast
  then have "isDigit x" by (simp add: clsMatch_def inRanges_def isDigit_def)
  with ms_rest_le[OF c'] x show ?thesis by auto
qed

lemma ms_wholeNumber:
  assumes "c' \<in> set (ms False wholeNumber c)"
  shows "\<exists>x xs. rest c = x # xs \<and> isDigit x \<and> length (rest c') \<le> length xs"
proof -
  have w: "wholeNumber = Seq WordB (Seq (Grp 1 (Seq digitCls (Star digitCls))) WordB)"
    by (simp add: wholeNumber_def Plus_def)
  from ms_Seq_elem[OF assms[unfolded w]] obtain c0 where c0: "c0 \<in> set (ms False WordB c)"
    and a: "c' \<in> set (ms False (Seq (Grp 1 (Seq digitCls (Star digitCls))) WordB) c0)" by blast
  from ms_WordB_elem[OF c0] have c0c: "c0 = c" .
  from ms_Seq_elem[OF a] obtain c1 where c1: "c1 \<in> set (ms False (Grp 1 (Seq digitCls (Star digitCls))) c0)"
    and b: "c' \<in> set (ms False WordB c1)" by blast
  from ms_WordB_elem[OF b] have c'c1: "c' = c1" .
  from ms_Grp_elem[OF c1] obtain c2 where c2: "c2 \<in> set (ms False (Seq digitCls (Star digitCls)) c0)"
    and r: "rest c1 = rest c2" by blast
  from ms_digit_first[OF c2] r c0c c'c1 show ?thesis by simp
qed

lemma match_all_first:
  "(\<forall>c c'. c' \<in> set (ms ic r c) \<longrightarrow>
      (\<exists>x xs. rest c = x # xs \<and> P x \<and> length (rest c') \<le> length xs)) \<Longrightarrow>
   e \<in> set (rx_match_all ic r p s) \<Longrightarrow> \<exists>x xs. e = x # xs \<and> P x"
proof (induction ic r p s rule: rx_match_all.induct)
  case (1 ic r p s)
  note rr = "1.prems"(1)
  show ?case
  proof (cases "ms ic r (St p s [])")
    case Nil
    show ?thesis
    proof (cases s)
      case Nil' : Nil
      with Nil "1.prems"(2) show ?thesis by (subst (asm) rx_match_all.simps) simp
    next
      case (Cons x xs)
      with Nil "1.prems"(2) have "e \<in> set (rx_match_all ic r (Some x) xs)"
        by (subst (asm) rx_match_all.simps) simp
      from "1.IH"(1)[OF Nil Cons rr this] show ?thesis .
    qed
  next
    case (Cons c cs)
    then have "c \<in> set (ms ic r (St p s []))" by simp
    with rr obtain x xs where x: "s = x # xs" "P x"
      "length (rest c) \<le> length xs" by fastforce
    then have lt: "length (rest c) < length s" by simp
    from "1.prems"(2) Cons lt have "e = take (length s - length (rest c)) s
       \<or> e \<in> set (rx_match_all ic r (prv c) (rest c))"
      by (subst (asm) rx_match_all.simps) simp
    then show ?thesis
    proof
      assume "e = take (length s - length (rest c)) s"
      with x show ?thesis by (cases "length s - length (rest c)") auto
    next
      assume "e \<in> set (rx_match_all ic r (prv c) (rest c))"
      from "1.IH"(2)[OF Cons lt rr this] show ?thesis .
    qed
  qed
qed

lemma match_all_wholeNumber:
  "e \<in> set (rx_match_all False wholeNumber p s) \<Longrightarrow> \<exists>x xs. e = x # xs \<and> isDigit x"
  by (rule match_all_first[where P = isDigit]) (use ms_wholeNumber in blast)+

lemma isDigit_not_space: "isDigit x \<Longrightarrow> \<not> isSpace x"
  by (auto simp: isDigit_def isSpace_def)

lemma parseInt_digit_first:
  assumes "isDigit x"
  shows "parseInt (x # xs) = toDouble (of_nat (digitsValue (x # takeWhile isDigit xs)))"
proof -
  from assms have "x \<noteq> 45" "x \<noteq> 43" by (auto simp: isDigit_def)
  with assms isDigit_not_space[OF assms] show ?thesis
    by (simp add: parseInt_def Let_def)
qed

lemma parseInt_digit_count: "isDigit x \<Longrightarrow> countNumber (parseInt (x # xs))"
  unfolding parseInt_digit_first by (rule toDouble_nat_count)

lemma rx_search_in_ms:
  "rx_search ic r p s i = Some (j, c) \<Longrightarrow> \<exists>p' s'. c \<in> set (ms ic r (St p' s' []))"
proof (induction s arbitrary: p i)
  case Nil
  then have "c \<in> set (ms ic r (St p [] []))" by (auto split: list.splits)
  then show ?case by blast
next
  case (Cons x xs)
  show ?case
  proof (cases "ms ic r (St p (x # xs) [])")
    case Nil
    with Cons.prems have "rx_search ic r (Some x) xs (Suc i) = Some (j, c)" by simp
    from Cons.IH[OF this] show ?thesis .
  next
    case (Cons c' cs)
    with Cons.prems have "c = c'" by simp
    with Cons have "c \<in> set (ms ic r (St p (x # xs) []))" by simp
    then show ?thesis by blast
  qed
qed

lemma group_digits:
  assumes "rx_group False (Grp 1 (Plus digitCls)) 1 s = Some d"
  shows "\<exists>x xs. d = x # xs \<and> isDigit x"
proof -
  from assms obtain j c where jc: "rx_search False (Grp 1 (Plus digitCls)) None s 0 = Some (j, c)"
    and d: "map_of (caps c) 1 = Some d"
    by (auto simp: rx_group_def rx_exec_def split: option.splits)
  from rx_search_in_ms[OF jc] obtain p' s' where "c \<in> set (ms False (Grp 1 (Plus digitCls)) (St p' s' []))"
    by blast
  then have "c \<in> set (ms False (Grp 1 (Seq digitCls (Star digitCls))) (St p' s' []))"
    by (simp only: Plus_def)
  from ms_Grp_elem[OF this]
  obtain c2 where c2: "c2 \<in> set (ms False (Seq digitCls (Star digitCls)) (St p' s' []))"
    and cc: "caps c = (1, take (length s' - length (rest c2)) s') # caps c2"
    by auto
  from ms_digit_first[OF c2] obtain x xs where x: "s' = x # xs" "isDigit x"
    "length (rest c2) \<le> length xs" by auto
  from d cc have "d = take (length s' - length (rest c2)) s'" by simp
  with x show ?thesis by (cases "length s' - length (rest c2)") auto
qed

section \<open>The engagement counters are counts\<close>

lemma parseInt_match:
  assumes "k < length (rx_match_all False wholeNumber p s)"
  shows "countNumber (parseInt (rx_match_all False wholeNumber p s ! k))"
proof -
  from assms have "rx_match_all False wholeNumber p s ! k \<in> set (rx_match_all False wholeNumber p s)"
    by simp
  from match_all_wholeNumber[OF this] obtain x xs where
    e: "rx_match_all False wholeNumber p s ! k = x # xs" and x: "isDigit x" by blast
  from parseInt_digit_count[OF x, of xs] show ?thesis unfolding e .
qed

lemma fromTotals_count: "fromTotals a m = Some v \<Longrightarrow> countNumber v"
  unfolding fromTotals_def Let_def
  by (auto split: if_splits list.splits metric.splits intro!: parseInt_match countNumber_0)

lemma buttonValue_count: "buttonValue m raw = Some v \<Longrightarrow> countNumber v"
proof -
  assume a: "buttonValue m raw = Some v"
  then obtain d where d: "rx_group False (Grp 1 (Plus digitCls)) 1 (normalizeArabicDigits (toLowerCase raw)) = Some d"
    and v: "v = parseInt d"
    by (auto simp: buttonValue_def Let_def split: if_splits option.splits)
  from group_digits[OF d] obtain x xs where "d = x # xs" "isDigit x" by blast
  with parseInt_digit_count[of x xs] v show ?thesis by simp
qed

lemma firstSome_Some: "firstSome f xs = Some v \<Longrightarrow> \<exists>x \<in> set xs. f x = Some v"
  by (induction xs) (auto split: option.splits)


lemma extractEngagement_count: "countNumber (extractEngagement a m)"
proof (cases "fromTotals a m")
  case (Some v)
  with fromTotals_count[OF Some] show ?thesis by (simp add: extractEngagement_def)
next
  case None
  show ?thesis
  proof (cases "firstSome (buttonValue m) (ariaLabels a)")
    case N2: None
    with None show ?thesis by (simp add: extractEngagement_def countNumber_def)
  next
    case (Some v)
    from firstSome_Some[OF Some] buttonValue_count have "countNumber v" by blast
    with None Some show ?thesis by (simp add: extractEngagement_def)
  qed
qed

lemma toOpost_total:
  "total_engagement (toOpost i a)
     = addNum (addNum (oreactions (toOpost i a)) (comments (toOpost i a))) (shares (toOpost i a))
   \<and> countNumber (oreactions (toOpost i a)) \<and> countNumber (comments (toOpost i a))
   \<and> countNumber (shares (toOpost i a)) \<and> countNumber (total_engagement (toOpost i a))"
proof -
  have t: "total_engagement (toOpost i a)
     = addNum (addNum (oreactions (toOpost i a)) (comments (toOpost i a))) (shares (toOpost i a))"
    by (simp add: toOpost_def Let_def)
  have r: "countNumber (oreactions (toOpost i a))"
    using extractEngagement_count[of a Reactions] by (simp add: toOpost_def Let_def)
  have c: "countNumber (comments (toOpost i a))"
    using extractEngagement_count[of a Comments] by (simp add: toOpost_def Let_def)
  have s: "countNumber (shares (toOpost i a))"
    using extractEngagement_count[of a Shares] by (simp add: toOpost_def Let_def)
  have "countNumber (total_engagement (toOpost i a))"
    unfolding t by (intro addNum_count r c s)
  with t r c s show ?thesis by blast
qed

lemma total_exact:
  assumes "r + c + s \<le> 2 ^ 53"
  shows "addNum (addNum (Num (of_nat r)) (Num (of_nat c))) (Num (of_nat s)) = Num (of_nat (r + c + s))"
proof -
  from assms have "r + c \<le> 2 ^ 53" by simp
  from addNum_exact[OF this] addNum_exact[OF assms] show ?thesis by simp
qed

lemma set_sliceTo: "set (sliceTo n xs) \<subseteq> set xs"
  by (auto simp: sliceTo_def dest: in_set_takeD)

lemma in_extractOposts:
  "p \<in> set (extractOposts nodes) \<Longrightarrow>
     \<exists>i a. a \<in> set nodes \<and> p = toOpost i a \<and> otext p \<noteq> [] \<and> otext p \<noteq> js ''N/A'' \<and> 5 < length (otext p)"
proof -
  assume "p \<in> set (extractOposts nodes)"
  then obtain i where i: "i < length nodes" "p = toOpost i (nodes ! i)"
    and t: "otext p \<noteq> []" "otext p \<noteq> js ''N/A''" "5 < length (otext p)"
    by (auto simp: extractOposts_def in_set_enumerate_eq)
  from i(1) have "nodes ! i \<in> set nodes" by simp
  with i(2) t show ?thesis by blast
qed

section \<open>Deduplication and the empty-text filter\<close>













lemma in_optimizedPosts: "p \<in> set (optimizedPosts target nodes) \<Longrightarrow> p \<in> set (extractOposts nodes)"
  using set_sliceTo[of target "extractOposts nodes"] by (auto simp: optimizedPosts_def)


lemma toOpost_text: "otext (toOpost i a) \<noteq> js ''N/A'' \<Longrightarrow> extractPostText a \<noteq> []"
  by (auto simp: toOpost_def Let_def)











section \<open>The feed, evaluated\<close>

lemmas post_simps = js_simps cleanText_def extractPostText_def toNumber_def countChars_def
  totalInteractions_def likeLabel_def likeWord_def countToken_def anyDigit_def labelValue_def
  spanValue_def extractReactions_def totalLabel_def totalLabelSplit_def wholeNumber_def
  fromTotals_def metricLabel_def buttonValue_def extractEngagement_def toPost_def
  extractPosts_def sliceTo_def scrapedPosts_def toOpost_def extractOposts_def optimizedPosts_def
  orNull_def allReactionsLabel_def feed_def enumerate_eq_zip
  prefixText_def actionBar_def bigPost_def


lemma feed_oposts:
  "optimizedPosts 10 (drop 2 feed) =
     [\<lparr>oid = 2, otext = js ''Rain today'', oreactions = Num 0, comments = Num 0, shares = Num 0,
        total_engagement = Num 0, odate = None\<rparr>,
      \<lparr>oid = 3, otext = js ''Big day '' @ allReactionsLabel @ js ''57 57 2 8'', oreactions = Num 57,
        comments = Num 2, shares = Num 8, total_engagement = Num 67, odate = None\<rparr>]"
  by (simp add: post_simps)



lemma feed_prefix_empty:
  "prefixText [32] (innerText (feed ! 2)) = [] \<and> prefixText [] (innerText (feed ! 2)) = []"
  by (simp add: post_simps)





lemma bigPost_oposts:
  "optimizedPosts 10 [bigPost]
     = [\<lparr>oid = 1, otext = js ''Big day '' @ allReactionsLabel @ js ''9007199254740992 1 1 0'',
         oreactions = Num 9007199254740992, comments = Num 1, shares = Num 0,
         total_engagement = Num 9007199254740992, odate = None\<rparr>]"
  by (simp add: post_simps)

text \<open>Numbers beyond the integers that a double holds: \<^verbatim>\<open>parseInt\<close> rounds, and a run
  of 309 digits is \<^verbatim>\<open>Infinity\<close>; \<^verbatim>\<open>parseCount\<close> rounds the product before
  \<^verbatim>\<open>Math.round\<close> sees it.\<close>

lemma foldl_nines:
  "foldl (\<lambda>a d. 10 * a + (d - 48)) (a :: nat) (replicate n 57) = a * 10 ^ n + (10 ^ n - 1)"
proof (induction n arbitrary: a)
  case 0
  show ?case by simp
next
  case (Suc n)
  have "(1 :: nat) \<le> 10 ^ n" by simp
  then have "(10 * a + 9) * 10 ^ n + (10 ^ n - 1) = a * 10 ^ Suc n + (10 ^ Suc n - 1)"
    by (simp add: algebra_simps)
  then show ?case using Suc[of "10 * a + (57 - 48)"] by simp
qed

lemma digitsValue_nines: "digitsValue (replicate n 57) = 10 ^ n - 1"
  using foldl_nines[of 0 n] by (simp add: digitsValue_def)

lemma parseInt_nines: "0 < n \<Longrightarrow> parseInt (replicate n 57) = toDouble (of_nat (10 ^ n - 1))"
proof -
  assume "0 < n"
  then obtain m where n: "n = Suc m" by (cases n) auto
  have d: "isDigit 57" by (simp add: isDigit_def)
  have r: "57 # takeWhile isDigit (replicate m 57) = replicate n 57" using d by (simp add: n)
  have "parseInt (57 # replicate m 57) = toDouble (of_nat (digitsValue (57 # takeWhile isDigit (replicate m 57))))"
    by (rule parseInt_digit_first[OF d])
  then have "parseInt (replicate n 57) = toDouble (of_nat (digitsValue (replicate n 57)))"
    unfolding r by (simp add: n)
  then show ?thesis by (simp only: digitsValue_nines)
qed

lemma parseInt_rounds:
  "parseInt (js ''9007199254740993'') = Num 9007199254740992"
  by (simp add: js_simps)

lemma parseInt_overflow: "parseInt (replicate 309 57) = Infinity"
proof -
  have "toDouble (10 ^ 309 - 1) = Infinity" by (simp add: double_simps)
  moreover have "(of_nat (10 ^ 309 - 1) :: real) = 10 ^ 309 - 1" by simp
  ultimately show ?thesis using parseInt_nines[of 309] by simp
qed

lemma parseCount_rounds:
  "parseCount (Some (js ''0.5005 k'')) = Some 500"
  "parseCount (Some (js ''2.3K'')) = Some 2"
  "parseCount (Some (js ''1M'')) = Some 1"
  by (simp_all add: parseCount_def js_simps)

section \<open>The claims about extraction\<close>




text \<open>
  Claim C10, as the code has it. For every post of the optimized scraper,
  \<^verbatim>\<open>total_engagement\<close> is \<^verbatim>\<open>reactions + comments + shares\<close> in the arithmetic of doubles,
  added from the left, and each of the three numbers is a count: a natural number, or
  \<^verbatim>\<open>Infinity\<close> for a run of digits beyond the range of a double; none is \<^verbatim>\<open>NaN\<close> and
  none is negative. When the three are finite and their sum does not exceed \<open>2\<^sup>5\<^sup>3\<close>, the
  total is exactly that sum; beyond, the additions round.
\<close>

theorem total_engagement_rounded_sum:
  "\<forall>p \<in> set (optimizedPosts target nodes).
     total_engagement p = addNum (addNum (oreactions p) (comments p)) (shares p)
   \<and> countNumber (oreactions p) \<and> countNumber (comments p) \<and> countNumber (shares p)
   \<and> countNumber (total_engagement p)
   \<and> (\<forall>r c s. oreactions p = Num (of_nat r) \<and> comments p = Num (of_nat c)
          \<and> shares p = Num (of_nat s) \<and> r + c + s \<le> 2 ^ 53
        \<longrightarrow> total_engagement p = Num (of_nat (r + c + s)))"
proof
  fix p assume "p \<in> set (optimizedPosts target nodes)"
  from in_extractOposts[OF in_optimizedPosts[OF this]] obtain i a where p: "p = toOpost i a" by blast
  from toOpost_total[of i a]
  have t: "total_engagement p = addNum (addNum (oreactions p) (comments p)) (shares p)"
    and k: "countNumber (oreactions p)" "countNumber (comments p)" "countNumber (shares p)"
      "countNumber (total_engagement p)"
    unfolding p by blast+
  have x: "\<forall>r c s. oreactions p = Num (of_nat r) \<and> comments p = Num (of_nat c)
          \<and> shares p = Num (of_nat s) \<and> r + c + s \<le> 2 ^ 53
        \<longrightarrow> total_engagement p = Num (of_nat (r + c + s))"
  proof (intro allI impI)
    fix r c s :: nat
    assume h: "oreactions p = Num (of_nat r) \<and> comments p = Num (of_nat c)
          \<and> shares p = Num (of_nat s) \<and> r + c + s \<le> 2 ^ 53"
    then have "r + c + s \<le> 2 ^ 53" by blast
    from total_exact[OF this] h show "total_engagement p = Num (of_nat (r + c + s))"
      unfolding t by simp
  qed
  from t k x
  show "total_engagement p = addNum (addNum (oreactions p) (comments p)) (shares p)
   \<and> countNumber (oreactions p) \<and> countNumber (comments p) \<and> countNumber (shares p)
   \<and> countNumber (total_engagement p)
   \<and> (\<forall>r c s. oreactions p = Num (of_nat r) \<and> comments p = Num (of_nat c)
          \<and> shares p = Num (of_nat s) \<and> r + c + s \<le> 2 ^ 53
        \<longrightarrow> total_engagement p = Num (of_nat (r + c + s)))"
    by blast
qed

theorem total_engagement_rounded_sum_witness:
  "optimizedPosts 10 (drop 2 feed) ! 1 \<in> set (optimizedPosts 10 (drop 2 feed))
   \<and> oreactions (optimizedPosts 10 (drop 2 feed) ! 1) = Num (of_nat 57)
   \<and> comments (optimizedPosts 10 (drop 2 feed) ! 1) = Num (of_nat 2)
   \<and> shares (optimizedPosts 10 (drop 2 feed) ! 1) = Num (of_nat 8)
   \<and> (57 :: nat) + 2 + 8 \<le> 2 ^ 53
   \<and> total_engagement (optimizedPosts 10 (drop 2 feed) ! 1) = Num (of_nat (57 + 2 + 8))"
proof -
  let ?p = "optimizedPosts 10 (drop 2 feed) ! 1"
  have m: "?p \<in> set (optimizedPosts 10 (drop 2 feed))" by (simp add: feed_oposts)
  have r: "oreactions ?p = Num (of_nat 57)" by (simp add: feed_oposts)
  have c: "comments ?p = Num (of_nat 2)" by (simp add: feed_oposts)
  have s: "shares ?p = Num (of_nat 8)" by (simp add: feed_oposts)
  have b: "(57 :: nat) + 2 + 8 \<le> 2 ^ 53" by simp
  from total_engagement_rounded_sum[of 10 "drop 2 feed"] m
  have "\<forall>r c s. oreactions ?p = Num (of_nat r) \<and> comments ?p = Num (of_nat c)
          \<and> shares ?p = Num (of_nat s) \<and> r + c + s \<le> 2 ^ 53
        \<longrightarrow> total_engagement ?p = Num (of_nat (r + c + s))" by blast
  with r c s b have "total_engagement ?p = Num (of_nat (57 + 2 + 8))" by blast
  with m r c s b show ?thesis by blast
qed

text \<open>The claim as stated fails beyond \<open>2\<^sup>5\<^sup>3\<close>: for reactions \<open>2\<^sup>5\<^sup>3\<close>, one comment and
  no share, the total is \<open>2\<^sup>5\<^sup>3\<close>, one less than the sum of the three fields.\<close>

theorem total_engagement_not_sum:
  "optimizedPosts 10 [bigPost]
     = [\<lparr>oid = 1, otext = js ''Big day '' @ allReactionsLabel @ js ''9007199254740992 1 1 0'',
         oreactions = Num 9007199254740992, comments = Num 1, shares = Num 0,
         total_engagement = Num 9007199254740992, odate = None\<rparr>]
   \<and> (9007199254740992 :: real) \<noteq> 9007199254740992 + 1 + 0"
  using bigPost_oposts by simp




text \<open>
  Claim C2, evaluated. \<^verbatim>\<open>parseCount("1.5k")\<close> is 2 and \<^verbatim>\<open>parseCount("2,300")\<close> is 2:
  in \<^verbatim>\<open>1.5k\<close> the letter follows a digit, so there is no word boundary before it and
  \<^verbatim>\<open>/\bk\b/\<close> does not match; the comma is not removed and ends the numeric token. The
  suffix counts only when something that is not a word character separates it from the
  number.
\<close>

theorem parseCount_short_forms:
  "parseCount (Some (js ''1.5k'')) = Some 2
   \<and> parseCount (Some (js ''2,300'')) = Some 2
   \<and> parseCount (Some (js ''1.5 k'')) = Some 1500"
  by (simp add: parseCount_def js_simps)

end
